theory Spec2Isabelle
  imports Complex_Main "HOL-Library.Multiset"
begin

section \<open>Data model\<close>

text \<open>
  The development embeds the download engine of \<^verbatim>\<open>src/XTERNAL/main.py\<close>:
  \<^verbatim>\<open>validate_url\<close>, \<^verbatim>\<open>simple_download_advanced\<close>,
  \<^verbatim>\<open>threaded_download_advanced\<close> (with its nested \<^verbatim>\<open>download_chunk\<close>)
  and the dispatch between the two in \<^verbatim>\<open>professional_download\<close>.
  Python integers are unbounded, so they are \<open>int\<close>; \<^verbatim>\<open>//\<close> is floor division,
  which is \<open>div\<close> on \<open>int\<close>. Byte strings and text strings are both \<open>char list\<close>.
\<close>

type_synonym bytes = string
type_synonym path = string

text \<open>The entries of the global \<^verbatim>\<open>CONFIG\<close> dictionary that the embedded functions read.\<close>

record config =
  download_dir :: string
  max_threads :: int
  auto_rename :: bool
  hash_verification :: bool
  resume_downloads :: bool
  check_disk_space :: bool
  download_rate_limit_kbps :: int
  allowed_protocols :: "string list"
  blocked_extensions :: "string list"

text \<open>The entries of \<^verbatim>\<open>file_info\<close> (the probe result) that the download paths read.\<close>

record file_info =
  file_size :: int
  supports_resume :: bool

text \<open>Exceptions are values; a function that can raise returns \<open>py_error + 'a\<close>.\<close>

datatype py_error = ZeroDivisionError | ValueError | RequestException

section \<open>Strings\<close>

text \<open>
  \<^verbatim>\<open>str(i)\<close> for an integer: decimal digits, most significant first, with a leading
  minus sign for a negative number.
\<close>

definition digit_char :: "nat \<Rightarrow> char" where
  "digit_char d = ''0123456789'' ! d"

function str_nat :: "nat \<Rightarrow> string" where
  "str_nat n = (if n < 10 then [digit_char n]
                else str_nat (n div 10) @ [digit_char (n mod 10)])"
  by pat_completeness auto
termination by (relation "measure id") auto

declare str_nat.simps [simp del]

definition py_str :: "int \<Rightarrow> string" where
  "py_str i = (if i < 0 then CHR ''-'' # str_nat (nat (- i)) else str_nat (nat i))"


definition endswith :: "string \<Rightarrow> string \<Rightarrow> bool" where
  "endswith s x = (length x \<le> length s \<and> drop (length s - length x) s = x)"

text \<open>
  \<^verbatim>\<open>s.lower()\<close>. Characters here are bytes, so the model lower-cases the ASCII
  letters and leaves every other byte as it is.
\<close>

definition lower_char :: "char \<Rightarrow> char" where
  "lower_char c =
     (case map_of (zip ''ABCDEFGHIJKLMNOPQRSTUVWXYZ'' ''abcdefghijklmnopqrstuvwxyz'') c of
        None \<Rightarrow> c | Some d \<Rightarrow> d)"

definition lower :: "string \<Rightarrow> string" where
  "lower s = map lower_char s"

section \<open>URL validation\<close>

text \<open>
  The three fields of the result of \<^verbatim>\<open>urllib.parse.urlparse\<close> that
  \<^verbatim>\<open>validate_url\<close> reads.
\<close>

record parse_result =
  scheme :: string
  netloc :: string
  path :: string

text \<open>
  \<^verbatim>\<open>urllib.parse.urlparse\<close> belongs to Python's standard library and not to the
  repository, so \<^verbatim>\<open>validate_url\<close> takes the parser as a parameter: a function that
  returns the parse result, or \<open>Inl msg\<close> when the parser raises an exception whose text is
  \<open>msg\<close>. Lines 326 to 348. The first element of \<^verbatim>\<open>blocked_ext\<close> names the
  blocked type in the message.
\<close>

definition suspicious_domains :: "string list" where
  "suspicious_domains = [''localhost'', ''127.0.0.1'', ''0.0.0.0'']"













text \<open>
  The defaults of \<^verbatim>\<open>DEFAULT_CONFIG\<close> (lines 104 to 146) for the entries modelled. The
  source expands \<^verbatim>\<open>~/Downloads/XTERNAL\<close> with the user's home directory; the model takes
  the home directory to be \<^verbatim>\<open>/home/user\<close>.
\<close>

definition DEFAULT_CONFIG :: config where
  "DEFAULT_CONFIG =
     \<lparr>download_dir = ''/home/user/Downloads/XTERNAL'', max_threads = 16, auto_rename = True,
      hash_verification = True, resume_downloads = True, check_disk_space = True,
      download_rate_limit_kbps = 0,
      allowed_protocols = [''http'', ''https'', ''ftp'', ''ftps'', ''sftp''],
      blocked_extensions = [''.exe'', ''.scr'', ''.bat'', ''.cmd'']\<rparr>"

section \<open>Segment planning\<close>

text \<open>
  A download task is the tuple \<^verbatim>\<open>(start, end, i)\<close> appended at line 586.
\<close>

type_synonym task = "int \<times> int \<times> int"

text \<open>
  Integer floor division \<^verbatim>\<open>a // b\<close>, which raises \<^verbatim>\<open>ZeroDivisionError\<close> for a zero
  divisor.
\<close>

definition py_floordiv :: "int \<Rightarrow> int \<Rightarrow> py_error + int" where
  "py_floordiv a b = (if b = 0 then Inl ZeroDivisionError else Inr (a div b))"

text \<open>
  Lines 582 to 586: the loop that builds \<^verbatim>\<open>download_tasks\<close> from \<^verbatim>\<open>file_size\<close>,
  \<^verbatim>\<open>num_threads\<close> and \<^verbatim>\<open>chunk_size\<close>. \<^verbatim>\<open>range(num_threads)\<close> is
  \<open>[0..num_threads - 1]\<close>, which is empty when \<open>num_threads \<le> 0\<close>.
\<close>

definition download_tasks :: "int \<Rightarrow> int \<Rightarrow> int \<Rightarrow> task list" where
  "download_tasks fsize num_threads chunk_size =
     map (\<lambda>i. let start = i * chunk_size;
                  endb = (if i < num_threads - 1 then start + chunk_size - 1 else fsize - 1)
              in (start, endb, i))
         [0..num_threads - 1]"

text \<open>The number of bytes a task's inclusive range \<open>[start, end]\<close> names.\<close>

definition task_len :: "task \<Rightarrow> int" where
  "task_len t = (case t of (start, endb, i) \<Rightarrow> endb - start + 1)"

text \<open>The byte offsets a task's inclusive range covers.\<close>

definition task_range :: "task \<Rightarrow> int set" where
  "task_range t = (case t of (start, endb, i) \<Rightarrow> {start..endb})"

section \<open>Files, requests and the world\<close>

text \<open>
  The functions act on the file system and on the network. The world is a record of the
  files (a map from path to content) and a log of the effects that the claims observe:
  the HTTP requests sent (with the value of their \<^verbatim>\<open>Range\<close> header, if any), the files
  opened (with the mode) and the calls of \<^verbatim>\<open>time.sleep\<close>. The log lists the events
  of one thread in the order in which the thread makes them; where threads run at the
  same time, the order between the events of different threads carries no meaning.
\<close>

datatype open_mode = ModeWB | ModeAB | ModeRB

datatype io = HttpGet "string option" | OpenFile path open_mode | Sleep real

record world =
  files :: "path \<Rightarrow> bytes option"
  io_log :: "io list"

definition log_io :: "io \<Rightarrow> world \<Rightarrow> world" where
  "log_io e w = w\<lparr>io_log := io_log w @ [e]\<rparr>"

text \<open>
  \<^verbatim>\<open>open(p, 'wb')\<close> creates or truncates, \<^verbatim>\<open>open(p, 'ab')\<close> creates or keeps the
  content, \<^verbatim>\<open>open(p, 'rb')\<close> changes nothing.
\<close>

definition open_file :: "path \<Rightarrow> open_mode \<Rightarrow> world \<Rightarrow> world" where
  "open_file p m w =
     log_io (OpenFile p m)
       (case m of
          ModeWB \<Rightarrow> w\<lparr>files := (files w)(p \<mapsto> [])\<rparr>
        | ModeAB \<Rightarrow> w\<lparr>files := (files w)(p \<mapsto> (case files w p of None \<Rightarrow> [] | Some d \<Rightarrow> d))\<rparr>
        | ModeRB \<Rightarrow> w)"

text \<open>
  \<^verbatim>\<open>f.write(data)\<close> on a file opened for writing or appending: the data goes to the end
  of what the file holds.
\<close>

definition write_file :: "path \<Rightarrow> bytes \<Rightarrow> world \<Rightarrow> world" where
  "write_file p data w =
     w\<lparr>files := (files w)(p \<mapsto> (case files w p of None \<Rightarrow> [] | Some d \<Rightarrow> d) @ data)\<rparr>"

text \<open>\<^verbatim>\<open>os.remove(p)\<close>, \<^verbatim>\<open>os.path.exists(p)\<close> and \<^verbatim>\<open>os.path.getsize(p)\<close>.\<close>

definition remove_file :: "path \<Rightarrow> world \<Rightarrow> world" where
  "remove_file p w = w\<lparr>files := (files w)(p := None)\<rparr>"

definition exists_file :: "world \<Rightarrow> path \<Rightarrow> bool" where
  "exists_file w p = (files w p \<noteq> None)"

definition getsize :: "world \<Rightarrow> path \<Rightarrow> int" where
  "getsize w p = (case files w p of None \<Rightarrow> 0 | Some d \<Rightarrow> int (length d))"

text \<open>
  What the server answers to the streaming \<^verbatim>\<open>session.get\<close> for the URL, as a function
  of the request's \<^verbatim>\<open>Range\<close> header (\<open>None\<close> when the request has none):
  \<open>Refused\<close> when \<^verbatim>\<open>session.get\<close> or \<^verbatim>\<open>raise_for_status\<close> raises;
  \<open>Stream chunks ok\<close> when \<^verbatim>\<open>iter_content\<close> yields \<open>chunks\<close> and then ends
  (\<open>ok\<close>) or raises (\<open>\<not> ok\<close>).
\<close>

datatype response = Refused | Stream "bytes list" bool

type_synonym transport = "string option \<Rightarrow> response"

section \<open>Single-stream download\<close>

text \<open>
  Lines 546 to 558, the loop over the chunks of the response. The state is the world, the
  variable \<^verbatim>\<open>last_time\<close> and the number of calls of \<^verbatim>\<open>time.time()\<close> made so far;
  \<open>clock k\<close> is what the \<open>k\<close>-th call returns. Times are real numbers in the model.
  The progress line (lines 560 to 570) only prints and is left out.
\<close>

fun simple_write_loop ::
  "config \<Rightarrow> (nat \<Rightarrow> real) \<Rightarrow> path \<Rightarrow> bytes list \<Rightarrow> world \<times> real \<times> nat \<Rightarrow> world \<times> real \<times> nat"
where
  "simple_write_loop cfg clock filepath [] st = st"
| "simple_write_loop cfg clock filepath (chunk # chunks) (w, last_time, k) =
     (if chunk \<noteq> [] then
        let w1 = write_file filepath chunk w in
        if download_rate_limit_kbps cfg > 0 then
          let current_time = clock k;
              elapsed = current_time - last_time;
              expected_time =
                real (length chunk) / real_of_int (download_rate_limit_kbps cfg * 1024);
              w2 = (if elapsed < expected_time
                    then log_io (Sleep (expected_time - elapsed)) w1 else w1)
          in simple_write_loop cfg clock filepath chunks (w2, current_time, Suc k)
        else simple_write_loop cfg clock filepath chunks (w1, last_time, k)
      else simple_write_loop cfg clock filepath chunks (w, last_time, k))"

text \<open>
  Lines 515 to 575. The result is the world afterwards and either the exception that
  escapes or the value returned.
\<close>

definition simple_download_advanced ::
  "config \<Rightarrow> transport \<Rightarrow> (nat \<Rightarrow> real) \<Rightarrow> path \<Rightarrow> file_info \<Rightarrow> world
     \<Rightarrow> world \<times> (py_error + bool)" where
  "simple_download_advanced cfg get clock filepath finfo w =
     (let resume_pos = (if exists_file w filepath \<and> resume_downloads cfg
                        then getsize w filepath else 0)
      in
      if exists_file w filepath \<and> resume_downloads cfg \<and> resume_pos = file_size finfo
      then (w, Inr True)
      else
        let range = (if resume_pos > 0 then Some (''bytes='' @ py_str resume_pos @ ''-'')
                     else None);
            mode = (if resume_pos > 0 then ModeAB else ModeWB);
            w1 = log_io (HttpGet range) w
        in case get range of
             Refused \<Rightarrow> (w1, Inl RequestException)
           | Stream chunks ok \<Rightarrow>
               let last_time = clock 0;
                   w2 = open_file filepath mode w1;
                   w3 = fst (simple_write_loop cfg clock filepath chunks (w2, last_time, 1))
               in (w3, if ok then Inr True else Inl RequestException))"

section \<open>Multi-segment download\<close>

text \<open>The name of the sink of a segment, line 610: \<^verbatim>\<open>f"{filepath}.part{thread_id}"\<close>.\<close>

definition part_path :: "path \<Rightarrow> int \<Rightarrow> path" where
  "part_path filepath thread_id = filepath @ ''.part'' @ py_str thread_id"

text \<open>The \<^verbatim>\<open>Range\<close> header of a segment request, line 603.\<close>

definition range_header :: "int \<Rightarrow> int \<Rightarrow> string" where
  "range_header start_byte end_byte = ''bytes='' @ py_str start_byte @ ''-'' @ py_str end_byte"

text \<open>
  Lines 611 to 616, the loop of a worker over the chunks of its response. The progress
  counter it updates under the lock feeds the progress line only and is left out.
\<close>

fun chunk_write_loop :: "path \<Rightarrow> bytes list \<Rightarrow> world \<Rightarrow> world" where
  "chunk_write_loop temp_file [] w = w"
| "chunk_write_loop temp_file (chunk # chunks) w =
     (if chunk \<noteq> [] then chunk_write_loop temp_file chunks (write_file temp_file chunk w)
      else chunk_write_loop temp_file chunks w)"

text \<open>
  Lines 591 to 622, a worker: the world afterwards and the value returned, the name of
  the sink or \<open>None\<close>. Every exception is caught and turns into \<open>None\<close>.
\<close>

definition download_chunk ::
  "config \<Rightarrow> transport \<Rightarrow> path \<Rightarrow> task \<Rightarrow> world \<Rightarrow> world \<times> path option" where
  "download_chunk cfg get filepath t w =
     (case t of (start_byte, end_byte, thread_id) \<Rightarrow>
        let range = Some (range_header start_byte end_byte);
            w1 = log_io (HttpGet range) w
        in case get range of
             Refused \<Rightarrow> (w1, None)
           | Stream chunks ok \<Rightarrow>
               let temp_file = part_path filepath thread_id;
                   w2 = open_file temp_file ModeWB w1;
                   w3 = chunk_write_loop temp_file chunks w2
               in (w3, if ok then Some temp_file else None))"

text \<open>
  The pool runs one worker per task. Workers share nothing but the file system, where
  each writes its own sink, so a run of the pool is a run of the workers one after the
  other in the order in which they complete. The state is the world and the results of
  the futures completed so far, by thread id.
\<close>

fun run_workers ::
  "config \<Rightarrow> transport \<Rightarrow> path \<Rightarrow> task list \<Rightarrow> world \<times> (int \<times> path option) list
     \<Rightarrow> world \<times> (int \<times> path option) list" where
  "run_workers cfg get filepath [] st = st"
| "run_workers cfg get filepath (t # ts) (w, results) =
     (case download_chunk cfg get filepath t w of
        (w', r) \<Rightarrow> run_workers cfg get filepath ts (w', results @ [(snd (snd t), r)]))"

text \<open>
  Line 651: \<^verbatim>\<open>[f.result() for f in futures if f.result()]\<close>, the futures taken in the
  order of submission. A sink name is never the empty string, so a result is truthy
  exactly when it is not \<^verbatim>\<open>None\<close>.
\<close>

definition collect_temp_files :: "task list \<Rightarrow> (int \<times> path option) list \<Rightarrow> path list" where
  "collect_temp_files tasks results =
     concat (map (\<lambda>t. case map_of results (snd (snd t)) of
                         Some (Some temp_file) \<Rightarrow> [temp_file]
                       | _ \<Rightarrow> [])
                 tasks)"

text \<open>Lines 655 to 661, the reassembly into the destination file.\<close>

fun combine_loop :: "path \<Rightarrow> int list \<Rightarrow> world \<Rightarrow> world" where
  "combine_loop filepath [] w = w"
| "combine_loop filepath (i # is) w =
     (let temp_file = part_path filepath i in
      if exists_file w temp_file then
        let w1 = open_file temp_file ModeRB w;
            w2 = write_file filepath (case files w1 temp_file of None \<Rightarrow> [] | Some d \<Rightarrow> d) w1;
            w3 = remove_file temp_file w2
        in combine_loop filepath is w3
      else combine_loop filepath is w)"

definition combine_chunks :: "path \<Rightarrow> int \<Rightarrow> world \<Rightarrow> world" where
  "combine_chunks filepath num_threads w =
     combine_loop filepath [0..num_threads - 1] (open_file filepath ModeWB w)"

text \<open>Lines 665 to 668, the removal of the sinks after a failure.\<close>

fun cleanup_loop :: "path \<Rightarrow> int list \<Rightarrow> world \<Rightarrow> world" where
  "cleanup_loop filepath [] w = w"
| "cleanup_loop filepath (i # is) w =
     (let temp_file = part_path filepath i in
      if exists_file w temp_file then cleanup_loop filepath is (remove_file temp_file w)
      else cleanup_loop filepath is w)"

definition cleanup_chunks :: "path \<Rightarrow> int \<Rightarrow> world \<Rightarrow> world" where
  "cleanup_chunks filepath num_threads w = cleanup_loop filepath [0..num_threads - 1] w"

text \<open>
  Lines 630 to 646, the loop of the main thread that waits for the futures: each pass
  prints the progress line and calls \<^verbatim>\<open>time.sleep(0.1)\<close>. How many passes it makes
  depends on how long the workers take; \<open>polls\<close> is that number. The sleeps of the main
  thread are logged after the events of the workers.
\<close>

fun poll_loop :: "nat \<Rightarrow> world \<Rightarrow> world" where
  "poll_loop 0 w = w"
| "poll_loop (Suc k) w = poll_loop k (log_io (Sleep (1 / 10)) w)"

text \<open>
  Lines 577 to 669. \<open>sched\<close> is the order in which the pool completes the tasks it is
  given. \<^verbatim>\<open>ThreadPoolExecutor(max_workers=n)\<close> raises \<^verbatim>\<open>ValueError\<close> for \<open>n \<le> 0\<close>.
\<close>

definition threaded_download_advanced ::
  "config \<Rightarrow> transport \<Rightarrow> (task list \<Rightarrow> task list) \<Rightarrow> nat \<Rightarrow> path \<Rightarrow> file_info \<Rightarrow> world
     \<Rightarrow> world \<times> (py_error + bool)" where
  "threaded_download_advanced cfg get sched polls filepath finfo w =
     (let num_threads = min (max_threads cfg) 16;
          fsize = file_size finfo
      in case py_floordiv fsize num_threads of
           Inl e \<Rightarrow> (w, Inl e)
         | Inr chunk_size \<Rightarrow>
             let tasks = download_tasks fsize num_threads chunk_size in
             if num_threads \<le> 0 then (w, Inl ValueError)
             else
               case run_workers cfg get filepath (sched tasks) (w, []) of
                 (w1, results) \<Rightarrow>
                   let w2 = poll_loop polls w1;
                       temp_files = collect_temp_files tasks results
                   in if int (length temp_files) = num_threads
                      then (combine_chunks filepath num_threads w2, Inr True)
                      else (cleanup_chunks filepath num_threads w2, Inr False))"

section \<open>Dispatch\<close>

text \<open>
  \<^verbatim>\<open>calculate_file_hash\<close>, lines 350 to 358: the file is opened for reading and
  digested. The digest is only printed, so the model records the opening; a file that
  does not exist makes \<^verbatim>\<open>open\<close> raise, which the function catches.
\<close>

definition calculate_file_hash :: "path \<Rightarrow> world \<Rightarrow> world" where
  "calculate_file_hash filepath w =
     (if exists_file w filepath then open_file filepath ModeRB w else w)"

text \<open>
  Lines 465 to 513 of \<^verbatim>\<open>professional_download\<close>: the choice between the two paths,
  the hash of the finished file and the handler that turns an exception into failure.
  \<open>filepath\<close> is the value of the variable at line 465. The function returns
  \<^verbatim>\<open>True\<close> on success and a false value (\<^verbatim>\<open>False\<close> or \<^verbatim>\<open>None\<close>) otherwise; the
  statistics, the history and what it prints are left out.
\<close>

definition professional_download_transfer ::
  "config \<Rightarrow> transport \<Rightarrow> (task list \<Rightarrow> task list) \<Rightarrow> nat \<Rightarrow> (nat \<Rightarrow> real) \<Rightarrow> path
     \<Rightarrow> file_info \<Rightarrow> world \<Rightarrow> world \<times> bool" where
  "professional_download_transfer cfg get sched polls clock filepath finfo w =
     (case (if file_size finfo > 10 * 1024 * 1024 \<and> supports_resume finfo
            then threaded_download_advanced cfg get sched polls filepath finfo w
            else simple_download_advanced cfg get clock filepath finfo w) of
        (w', Inl e) \<Rightarrow> (w', False)
      | (w', Inr success) \<Rightarrow>
          if success
          then ((if hash_verification cfg \<and> file_size finfo < 100 * 1024 * 1024
                 then calculate_file_hash filepath w' else w'),
                True)
          else (w', False))"

text \<open>
  Lines 441 to 448, the loop that looks for a name that is not taken:
  \<^verbatim>\<open>base_1.ext\<close>, \<^verbatim>\<open>base_2.ext\<close> and so on. It does not end when every such name
  exists, so the result is an option and \<open>None\<close> stands for a loop that never ends.
  \<^verbatim>\<open>os.path.join\<close> and \<^verbatim>\<open>os.path.splitext\<close> belong to Python's standard library;
  the model takes them as the parameters \<open>join\<close> and \<open>splitext\<close>.
\<close>

partial_function (option) rename_loop ::
  "(string \<Rightarrow> string \<Rightarrow> string) \<Rightarrow> world \<Rightarrow> string \<Rightarrow> string \<Rightarrow> string \<Rightarrow> int \<Rightarrow> path
     \<Rightarrow> path option" where
  "rename_loop join w dir base ext counter filepath =
     (if exists_file w filepath
      then rename_loop join w dir base ext (counter + 1)
             (join dir (base @ ''_'' @ py_str counter @ ext))
      else Some filepath)"

declare rename_loop.simps [code]

definition auto_rename_filepath ::
  "(string \<Rightarrow> string \<Rightarrow> string) \<Rightarrow> (string \<Rightarrow> string \<times> string) \<Rightarrow> config \<Rightarrow> world \<Rightarrow> string
     \<Rightarrow> path \<Rightarrow> path option" where
  "auto_rename_filepath join splitext cfg w fname filepath =
     (if auto_rename cfg \<and> exists_file w filepath
      then (case splitext fname of
              (base, ext) \<Rightarrow> rename_loop join w (download_dir cfg) base ext 1 filepath)
      else Some filepath)"

text \<open>
  Lines 431 to 513 of \<^verbatim>\<open>professional_download\<close>, what the engine does once the URL
  is validated and probed. \<open>fname\<close> is the file name of line 430, \<open>has_space\<close> is what
  the helper \<^verbatim>\<open>check_disk_space\<close> reports, \<open>answer\<close> is what the user types at the
  prompt of line 461. The world holds files and no directories, so the creation of the
  download directory (line 450) is left out, as is what the function prints.
\<close>

definition professional_download_after_probe ::
  "(string \<Rightarrow> string \<Rightarrow> string) \<Rightarrow> (string \<Rightarrow> string \<times> string) \<Rightarrow> config \<Rightarrow> transport
     \<Rightarrow> (task list \<Rightarrow> task list) \<Rightarrow> nat \<Rightarrow> (nat \<Rightarrow> real) \<Rightarrow> bool \<Rightarrow> string \<Rightarrow> string
     \<Rightarrow> file_info \<Rightarrow> world \<Rightarrow> (world \<times> bool) option" where
  "professional_download_after_probe join splitext cfg get sched polls clock has_space answer
     fname finfo w =
     (let filepath = join (download_dir cfg) fname in
      if check_disk_space cfg \<and> \<not> has_space then Some (w, False)
      else
        case auto_rename_filepath join splitext cfg w fname filepath of
          None \<Rightarrow> None
        | Some filepath' \<Rightarrow>
            if lower answer = ''n'' then Some (w, False)
            else Some (professional_download_transfer cfg get sched polls clock filepath'
                         finfo w))"

section \<open>Observations used in the statements\<close>

text \<open>The projections of the log: requests sent, files opened, sleeps.\<close>

fun requests_of :: "io list \<Rightarrow> string option list" where
  "requests_of [] = []"
| "requests_of (HttpGet h # es) = h # requests_of es"
| "requests_of (e # es) = requests_of es"

fun opens_of :: "io list \<Rightarrow> (path \<times> open_mode) list" where
  "opens_of [] = []"
| "opens_of (OpenFile p m # es) = (p, m) # opens_of es"
| "opens_of (e # es) = opens_of es"

fun sleeps_of :: "io list \<Rightarrow> real list" where
  "sleeps_of [] = []"
| "sleeps_of (Sleep d # es) = d # sleeps_of es"
| "sleeps_of (e # es) = sleeps_of es"

text \<open>
  The bytes of a resource in the inclusive range \<open>[start_byte, end_byte]\<close>, which a server
  that honours \<^verbatim>\<open>Range: bytes=start-end\<close> sends; and the bytes from an offset on, which
  it sends for \<^verbatim>\<open>Range: bytes=start-\<close>.
\<close>

definition resource_range :: "bytes \<Rightarrow> int \<Rightarrow> int \<Rightarrow> bytes" where
  "resource_range res start_byte end_byte =
     take (nat (end_byte - start_byte + 1)) (drop (nat start_byte) res)"

definition resource_from :: "bytes \<Rightarrow> int \<Rightarrow> bytes" where
  "resource_from res start_byte = drop (nat start_byte) res"

text \<open>
  What the transport makes of a segment: whether its worker returns the sink (the request
  is answered and the stream ends normally), and the bytes that reach the sink.
\<close>

definition segment_done :: "transport \<Rightarrow> task \<Rightarrow> bool" where
  "segment_done get t =
     (case t of (start_byte, end_byte, thread_id) \<Rightarrow>
        (case get (Some (range_header start_byte end_byte)) of
           Refused \<Rightarrow> False | Stream chunks ok \<Rightarrow> ok))"

definition segment_body :: "transport \<Rightarrow> task \<Rightarrow> bytes option" where
  "segment_body get t =
     (case t of (start_byte, end_byte, thread_id) \<Rightarrow>
        (case get (Some (range_header start_byte end_byte)) of
           Refused \<Rightarrow> None | Stream chunks ok \<Rightarrow> Some (concat chunks)))"

section \<open>Concrete inputs\<close>

text \<open>
  Inputs on which the theorems are instantiated: a world with no file, a world with one
  file, and a server given by the table of its answers (it refuses every other request).
\<close>

definition fresh_world :: world where
  "fresh_world = \<lparr>files = (\<lambda>p. None), io_log = []\<rparr>"

definition world_with :: "path \<Rightarrow> bytes \<Rightarrow> world" where
  "world_with p d = \<lparr>files = (\<lambda>q. if q = p then Some d else None), io_log = []\<rparr>"

definition table_server :: "(string option \<times> response) list \<Rightarrow> transport" where
  "table_server answers h = (case map_of answers h of None \<Rightarrow> Refused | Some r \<Rightarrow> r)"

text \<open>
  \<^verbatim>\<open>os.path.join\<close> and \<^verbatim>\<open>os.path.splitext\<close> as they work on POSIX paths: a second
  part that starts with a slash replaces the first, otherwise the parts are joined with
  one slash; the extension starts at the last dot of the last path component, unless only
  dots come before it in that component.
\<close>

definition posix_join :: "string \<Rightarrow> string \<Rightarrow> string" where
  "posix_join a b =
     (if take 1 b = ''/'' then b
      else if a = [] \<or> last a = CHR ''/'' then a @ b
      else a @ ''/'' @ b)"

definition posix_splitext :: "string \<Rightarrow> string \<times> string" where
  "posix_splitext p =
     (let name = rev (takeWhile (\<lambda>c. c \<noteq> CHR ''/'') (rev p));
          stem = dropWhile (\<lambda>c. c = CHR ''.'') name;
          ext = CHR ''.'' # rev (takeWhile (\<lambda>c. c \<noteq> CHR ''.'') (rev stem))
      in if CHR ''.'' \<in> set stem
         then (take (length p - length ext) p, ext)
         else (p, []))"

text \<open>
  A world with the files of an association list; a configuration with three threads; a
  resource of ten bytes, a server that honours every request for it, and a server whose
  stream for the second of three segments breaks after one byte.
\<close>

definition world_of :: "(path \<times> bytes) list \<Rightarrow> world" where
  "world_of fs = \<lparr>files = map_of fs, io_log = []\<rparr>"

definition three_threads :: config where
  "three_threads = DEFAULT_CONFIG\<lparr>max_threads := 3\<rparr>"

definition ten_bytes :: file_info where
  "ten_bytes = \<lparr>file_size = 10, supports_resume = True\<rparr>"

definition good_server :: transport where
  "good_server =
     table_server [(None, Stream [''0123456789''] True),
                   (Some ''bytes=0-2'', Stream [''01'', ''2''] True),
                   (Some ''bytes=3-5'', Stream [''345''] True),
                   (Some ''bytes=6-9'', Stream [[], ''6789''] True)]"

definition failing_server :: transport where
  "failing_server =
     table_server [(None, Stream [''0123456789''] True),
                   (Some ''bytes=0-2'', Stream [''01'', ''2''] True),
                   (Some ''bytes=3-5'', Stream [''3''] False),
                   (Some ''bytes=6-9'', Stream [[], ''6789''] True)]"

section \<open>The planned segments tile the file\<close>

lemma download_tasks_length: "length (download_tasks fsize n c) = nat n"
  by (simp add: download_tasks_def)

lemma download_tasks_nth:
  assumes "0 \<le> i" "i < n"
  shows "download_tasks fsize n c ! nat i =
           (i * c, (if i < n - 1 then i * c + c - 1 else fsize - 1), i)"
  using assms by (simp add: download_tasks_def Let_def)

lemma download_tasks_ids: "map (\<lambda>t. snd (snd t)) (download_tasks fsize n c) = [0..n - 1]"
  by (simp add: download_tasks_def Let_def comp_def)

lemma download_tasks_set:
  "set (download_tasks fsize n c) =
     (\<lambda>i. (i * c, (if i < n - 1 then i * c + c - 1 else fsize - 1), i)) ` {0..n - 1}"
  by (simp add: download_tasks_def Let_def)

lemma chunk_size_bounds:
  assumes "0 < fsize" "1 \<le> (n::int)"
  shows "0 \<le> fsize div n" and "n * (fsize div n) \<le> fsize"
proof -
  from assms show "0 \<le> fsize div n" by (simp add: pos_imp_zdiv_nonneg_iff)
  from assms have "n * (fsize div n) + fsize mod n = fsize" by simp
  moreover from assms have "0 \<le> fsize mod n" by simp
  ultimately show "n * (fsize div n) \<le> fsize" by linarith
qed

lemma download_tasks_sum:
  assumes "1 \<le> n"
  shows "sum_list (map task_len (download_tasks fsize n c)) = fsize"
proof -
  let ?len = "\<lambda>i. (if i < n - 1 then i * c + c - 1 else fsize - 1) - i * c + 1"
  have split: "[0..n - 1] = [0..n - 2] @ [n - 1]"
    using assms upto_rec2[of 0 "n - 1"] by simp
  have eq: "map ?len [0..n - 2] = map (\<lambda>i. c) [0..n - 2]"
    by (rule map_cong) auto
  have "sum_list (map task_len (download_tasks fsize n c)) = sum_list (map ?len [0..n - 1])"
    by (simp add: download_tasks_def task_len_def Let_def comp_def)
  also have "\<dots> = sum_list (map ?len [0..n - 2]) + ?len (n - 1)"
    unfolding split by simp
  also have "\<dots> = (n - 1) * c + (fsize - (n - 1) * c)"
    unfolding eq using assms by (simp add: sum_list_triv)
  finally show ?thesis by simp
qed


lemma download_tasks_range_nth:
  assumes "0 \<le> i" "i < n"
  shows "task_range (download_tasks fsize n c ! nat i) =
           {i * c .. (if i < n - 1 then i * c + c - 1 else fsize - 1)}"
  using assms by (simp add: download_tasks_nth task_range_def)

lemma download_tasks_disjoint:
  assumes "0 \<le> c" "0 \<le> i" "i < j" "j < n"
  shows "task_range (download_tasks fsize n c ! nat i) \<inter>
         task_range (download_tasks fsize n c ! nat j) = {}"
proof -
  from assms have "(i + 1) * c \<le> j * c"
    by (intro mult_right_mono) auto
  then have "i * c + c - 1 < j * c"
    by (simp add: algebra_simps)
  with assms show ?thesis
    by (auto simp: download_tasks_range_nth)
qed

lemma download_tasks_cover:
  assumes "0 < fsize" "1 \<le> n"
  shows "(\<Union>t \<in> set (download_tasks fsize n (fsize div n)). task_range t) = {0..fsize - 1}"
proof -
  let ?c = "fsize div n"
  let ?e = "\<lambda>i. if i < n - 1 then i * ?c + ?c - 1 else fsize - 1"
  note cb = chunk_size_bounds[OF assms]
  have lhs: "(\<Union>t \<in> set (download_tasks fsize n ?c). task_range t) =
               (\<Union>i \<in> {0..n - 1}. {i * ?c .. ?e i})"
    by (simp add: download_tasks_set task_range_def)
  have "(\<Union>i \<in> {0..n - 1}. {i * ?c .. ?e i}) = {0..fsize - 1}"
  proof (intro set_eqI iffI)
    fix x assume "x \<in> (\<Union>i \<in> {0..n - 1}. {i * ?c .. ?e i})"
    then obtain i where i: "0 \<le> i" "i \<le> n - 1" "i * ?c \<le> x" "x \<le> ?e i"
      by auto
    from i cb have "0 \<le> i * ?c" by simp
    moreover have "?e i \<le> fsize - 1"
    proof (cases "i < n - 1")
      case True
      then have "(i + 1) * ?c \<le> n * ?c"
        using cb by (intro mult_right_mono) auto
      with cb True show ?thesis by (simp add: algebra_simps)
    qed simp
    ultimately show "x \<in> {0..fsize - 1}" using i by auto
  next
    fix x assume "x \<in> {0..fsize - 1}"
    then have x: "0 \<le> x" "x \<le> fsize - 1" by auto
    show "x \<in> (\<Union>i \<in> {0..n - 1}. {i * ?c .. ?e i})"
    proof (cases "(n - 1) * ?c \<le> x")
      case True
      with x assms have "n - 1 \<in> {0..n - 1}" "x \<in> {(n - 1) * ?c .. ?e (n - 1)}"
        by auto
      then show ?thesis by blast
    next
      case False
      with x have cpos: "0 < ?c"
        using cb assms by (cases "?c = 0") auto
      let ?i = "x div ?c"
      from cpos x have i0: "0 \<le> ?i" by (simp add: pos_imp_zdiv_nonneg_iff)
      have bnd: "?i * ?c \<le> x" "x \<le> ?i * ?c + ?c - 1"
        using div_mult_mod_eq[of x ?c] pos_mod_sign[OF cpos, of x] pos_mod_bound[OF cpos, of x]
        by linarith+
      have "?i < n - 1"
      proof (rule ccontr)
        assume "\<not> ?i < n - 1"
        then have "n - 1 \<le> ?i" by simp
        then have "(n - 1) * ?c \<le> ?i * ?c"
          using cpos by (intro mult_right_mono) auto
        with bnd(1) False show False by simp
      qed
      with bnd
      have "?i \<in> {0..n - 1}" "x \<in> {?i * ?c .. ?e ?i}"
        using i0 by auto
      then show ?thesis by blast
    qed
  qed
  with lhs show ?thesis by simp
qed

lemma download_tasks_starts_sorted:
  assumes "0 \<le> c"
  shows "sorted (map fst (download_tasks fsize n c))"
proof -
  have "map fst (download_tasks fsize n c) = map (\<lambda>i. i * c) [0..n - 1]"
    by (simp add: download_tasks_def Let_def comp_def)
  moreover have "sorted (map (\<lambda>i. i * c) [0..n - 1])"
    using assms by (intro sorted_map_same iffD2[OF sorted_map]) (auto simp: sorted_wrt_iff_nth_less mult_right_mono)
  ultimately show ?thesis by simp
qed


text \<open>
  Claim C1. For every \<open>fsize > 0\<close> and every worker count \<open>n \<ge> 1\<close> (in particular
  every count from 1 to 32), the tasks planned with chunk size \<open>fsize div n\<close> tile
  \<open>[0, fsize - 1]\<close>: there are \<open>n\<close> of them; the \<open>i\<close>-th is
  \<open>[i * (fsize div n), (i + 1) * (fsize div n) - 1]\<close> for \<open>i < n - 1\<close> and the last one ends
  at \<open>fsize - 1\<close>; they are listed by ascending index and ascending start; the first
  starts at 0 and each next one starts right after the previous one ends; no range has a
  negative length; the ranges are pairwise disjoint, their union is \<open>{0..fsize - 1}\<close> and
  their lengths sum to \<open>fsize\<close>.
\<close>

theorem segments_tile_file:
  assumes "0 < fsize" and "1 \<le> n"
  shows "let segs = download_tasks fsize n (fsize div n) in
           length segs = nat n
         \<and> (\<forall>i. 0 \<le> i \<and> i < n \<longrightarrow>
               segs ! nat i =
                 (i * (fsize div n),
                  (if i < n - 1 then (i + 1) * (fsize div n) - 1 else fsize - 1), i))
         \<and> map (\<lambda>t. snd (snd t)) segs = [0..n - 1]
         \<and> sorted (map fst segs)
         \<and> fst (segs ! 0) = 0
         \<and> fst (snd (segs ! nat (n - 1))) = fsize - 1
         \<and> (\<forall>i. 0 \<le> i \<and> i < n - 1 \<longrightarrow>
               fst (segs ! nat (i + 1)) = fst (snd (segs ! nat i)) + 1)
         \<and> (\<forall>t \<in> set segs. 0 \<le> task_len t)
         \<and> (\<forall>i j. 0 \<le> i \<and> i < j \<and> j < n \<longrightarrow>
               task_range (segs ! nat i) \<inter> task_range (segs ! nat j) = {})
         \<and> (\<Union>t \<in> set segs. task_range t) = {0..fsize - 1}
         \<and> sum_list (map task_len segs) = fsize"
proof -
  let ?c = "fsize div n"
  let ?segs = "download_tasks fsize n ?c"
  note cb = chunk_size_bounds[OF assms]
  have nth: "?segs ! nat i = (i * ?c, (if i < n - 1 then (i + 1) * ?c - 1 else fsize - 1), i)"
    if "0 \<le> i" "i < n" for i
    using that by (simp add: download_tasks_nth algebra_simps)
  have first: "fst (?segs ! 0) = 0"
    using nth[of 0] assms by simp
  have last: "fst (snd (?segs ! nat (n - 1))) = fsize - 1"
    using nth[of "n - 1"] assms by simp
  have contiguous: "fst (?segs ! nat (i + 1)) = fst (snd (?segs ! nat i)) + 1"
    if "0 \<le> i" "i < n - 1" for i
    using that nth[of i] nth[of "i + 1"] by simp
  have nonneg: "0 \<le> task_len t" if "t \<in> set ?segs" for t
  proof -
    from that obtain i where i: "0 \<le> i" "i \<le> n - 1"
      and t: "t = (i * ?c, (if i < n - 1 then i * ?c + ?c - 1 else fsize - 1), i)"
      by (auto simp: download_tasks_set)
    show ?thesis
    proof (cases "i < n - 1")
      case True
      with t cb show ?thesis by (simp add: task_len_def)
    next
      case False
      with i have "i = n - 1" by simp
      with t cb assms show ?thesis by (simp add: task_len_def algebra_simps)
    qed
  qed
  have disjoint: "task_range (?segs ! nat i) \<inter> task_range (?segs ! nat j) = {}"
    if "0 \<le> i" "i < j" "j < n" for i j
    using that cb by (intro download_tasks_disjoint) auto
  show ?thesis
    unfolding Let_def
    using nth first last contiguous nonneg disjoint
      download_tasks_length[of fsize n ?c] download_tasks_ids[of fsize n ?c]
      download_tasks_starts_sorted[OF cb(1), of fsize n]
      download_tasks_cover[OF assms] download_tasks_sum[OF assms(2), of fsize ?c]
    by blast
qed

theorem segments_tile_file_witness:
  "(0::int) < 10 \<and> (1::int) \<le> 3
   \<and> download_tasks 10 3 (10 div 3) = [(0, 2, 0), (3, 5, 1), (6, 9, 2)]
   \<and> length (download_tasks 10 3 (10 div 3)) = 3
   \<and> sum_list (map task_len (download_tasks 10 3 (10 div 3))) = 10"
  using segments_tile_file[of 10 3]
  by (simp add: download_tasks_def Let_def task_len_def upto.simps)

section \<open>URL validation: the checks\<close>


lemma lower_suspicious: "h \<in> set suspicious_domains \<Longrightarrow> lower h = h"
  by (auto simp: suspicious_domains_def lower_def lower_char_def)

lemma blocked_filter_empty:
  "(filter (\<lambda>ext. endswith p ext) exts = []) = (\<not> (\<exists>ext \<in> set exts. endswith p ext))"
  by (simp add: filter_empty_conv)







section \<open>Effects of the file and log operations\<close>

lemma requests_of_append: "requests_of (xs @ ys) = requests_of xs @ requests_of ys"
  by (induction xs rule: requests_of.induct) auto

lemma opens_of_append: "opens_of (xs @ ys) = opens_of xs @ opens_of ys"
  by (induction xs rule: opens_of.induct) auto

lemma sleeps_of_append: "sleeps_of (xs @ ys) = sleeps_of xs @ sleeps_of ys"
  by (induction xs rule: sleeps_of.induct) auto

lemma files_log_io [simp]: "files (log_io e w) = files w"
  by (simp add: log_io_def)

lemma io_log_log_io [simp]: "io_log (log_io e w) = io_log w @ [e]"
  by (simp add: log_io_def)

lemma files_open_file:
  "files (open_file p m w) q =
     (if q = p then
        (case m of ModeWB \<Rightarrow> Some []
         | ModeAB \<Rightarrow> Some (case files w p of None \<Rightarrow> [] | Some d \<Rightarrow> d)
         | ModeRB \<Rightarrow> files w p)
      else files w q)"
  by (cases m) (simp_all add: open_file_def)

lemma io_log_open_file [simp]: "io_log (open_file p m w) = io_log w @ [OpenFile p m]"
  by (cases m) (simp_all add: open_file_def)

lemma files_write_file:
  "files (write_file p d w) q =
     (if q = p then Some ((case files w p of None \<Rightarrow> [] | Some old \<Rightarrow> old) @ d)
      else files w q)"
  by (simp add: write_file_def)

lemma io_log_write_file [simp]: "io_log (write_file p d w) = io_log w"
  by (simp add: write_file_def)

lemma files_remove_file:
  "files (remove_file p w) q = (if q = p then None else files w q)"
  by (simp add: remove_file_def)

lemma io_log_remove_file [simp]: "io_log (remove_file p w) = io_log w"
  by (simp add: remove_file_def)

text \<open>The loop of the single-stream path.\<close>

lemma simple_write_loop_files:
  assumes "files w filepath = Some old"
  shows "files (fst (simple_write_loop cfg clock filepath chunks (w, lt, k))) q
           = (if q = filepath then Some (old @ concat chunks) else files w q)"
  using assms
proof (induction chunks arbitrary: w lt k old q)
  case Nil
  then show ?case by simp
next
  case (Cons chunk chunks)
  show ?case
  proof (cases "chunk = []")
    case True
    with Cons show ?thesis by simp
  next
    case False
    let ?w1 = "write_file filepath chunk w"
    have f1: "files ?w1 filepath = Some (old @ chunk)"
      using Cons.prems by (simp add: files_write_file)
    have f2: "files (log_io e ?w1) filepath = Some (old @ chunk)" for e
      using f1 by simp
    show ?thesis
      using False Cons.IH[OF f1] Cons.IH[OF f2] Cons.prems
      by (simp add: Let_def files_write_file)
  qed
qed

lemma simple_write_loop_requests:
  "requests_of (io_log (fst (simple_write_loop cfg clock filepath chunks (w, lt, k))))
     = requests_of (io_log w)"
  by (induction chunks arbitrary: w lt k)
     (simp_all add: Let_def requests_of_append)

lemma simple_write_loop_opens:
  "opens_of (io_log (fst (simple_write_loop cfg clock filepath chunks (w, lt, k))))
     = opens_of (io_log w)"
  by (induction chunks arbitrary: w lt k)
     (simp_all add: Let_def opens_of_append)

lemma simple_write_loop_no_limit:
  assumes "download_rate_limit_kbps cfg \<le> 0"
  shows "io_log (fst (simple_write_loop cfg clock filepath chunks (w, lt, k))) = io_log w"
  using assms by (induction chunks arbitrary: w lt k) simp_all

section \<open>Single-stream download: resume\<close>

lemma simple_download_complete:
  assumes "files w filepath = Some old" "resume_downloads cfg" "int (length old) = file_size finfo"
  shows "simple_download_advanced cfg get clock filepath finfo w = (w, Inr True)"
  using assms by (simp add: simple_download_advanced_def exists_file_def getsize_def)

lemma simple_download_resume:
  assumes "files w filepath = Some old" "resume_downloads cfg"
    and "0 < length old" "int (length old) \<noteq> file_size finfo"
    and "get (Some (''bytes='' @ py_str (int (length old)) @ ''-'')) = Stream chunks ok"
  shows "simple_download_advanced cfg get clock filepath finfo w =
           (fst (simple_write_loop cfg clock filepath chunks
                  (open_file filepath ModeAB
                     (log_io (HttpGet (Some (''bytes='' @ py_str (int (length old)) @ ''-''))) w),
                   clock 0, 1)),
            if ok then Inr True else Inl RequestException)"
  using assms by (simp add: simple_download_advanced_def exists_file_def getsize_def Let_def)

lemma simple_download_fresh:
  assumes "\<not> (exists_file w filepath \<and> resume_downloads cfg) \<or> files w filepath = Some []"
    and "files w filepath = Some [] \<and> resume_downloads cfg \<longrightarrow> file_size finfo \<noteq> 0"
    and "get None = Stream chunks ok"
  shows "simple_download_advanced cfg get clock filepath finfo w =
           (fst (simple_write_loop cfg clock filepath chunks
                  (open_file filepath ModeWB (log_io (HttpGet None) w), clock 0, 1)),
            if ok then Inr True else Inl RequestException)"
  using assms by (auto simp add: simple_download_advanced_def exists_file_def getsize_def Let_def)

text \<open>
  Claim C4, as amended. Let the destination exist with content \<open>old\<close> of length \<open>L\<close>
  and let resume be enabled. If \<open>L\<close> equals the expected size, the single-stream download
  returns success with the world unchanged (no request is sent). If \<open>0 < L\<close> and \<open>L\<close>
  differs from the expected size, it sends one request with the header
  \<^verbatim>\<open>Range: bytes=L-\<close> and opens the file in append mode; the file ends up as \<open>old\<close>
  followed by the body, so when the server answers with the bytes of the resource from
  offset \<open>L\<close> on and \<open>L\<close> is below the expected size, the final length is the expected size
  and the first \<open>L\<close> bytes are the old ones. If \<open>L = 0\<close> (an empty file) the request
  carries no \<^verbatim>\<open>Range\<close> header and the file is opened in write mode.
\<close>

theorem resume_appends_after_existing_bytes:
  assumes "files w filepath = Some old" and "resume_downloads cfg"
  shows
    "(int (length old) = file_size finfo \<longrightarrow>
        simple_download_advanced cfg get clock filepath finfo w = (w, Inr True))
   \<and> (0 < length old \<and> int (length old) \<noteq> file_size finfo
        \<and> get (Some (''bytes='' @ py_str (int (length old)) @ ''-'')) = Stream chunks True \<longrightarrow>
        (case simple_download_advanced cfg get clock filepath finfo w of (w', r) \<Rightarrow>
           r = Inr True
         \<and> requests_of (io_log w') =
             requests_of (io_log w) @ [Some (''bytes='' @ py_str (int (length old)) @ ''-'')]
         \<and> opens_of (io_log w') = opens_of (io_log w) @ [(filepath, ModeAB)]
         \<and> files w' filepath = Some (old @ concat chunks)
         \<and> (\<forall>q. q \<noteq> filepath \<longrightarrow> files w' q = files w q)
         \<and> (\<forall>res. concat chunks = resource_from res (int (length old))
                \<and> int (length res) = file_size finfo
                \<and> int (length old) < file_size finfo \<longrightarrow>
                (\<exists>final. files w' filepath = Some final
                   \<and> int (length final) = file_size finfo
                   \<and> take (length old) final = old))))
   \<and> (length old = 0 \<and> file_size finfo \<noteq> 0 \<and> get None = Stream chunks True \<longrightarrow>
        (case simple_download_advanced cfg get clock filepath finfo w of (w', r) \<Rightarrow>
           r = Inr True
         \<and> requests_of (io_log w') = requests_of (io_log w) @ [None]
         \<and> opens_of (io_log w') = opens_of (io_log w) @ [(filepath, ModeWB)]
         \<and> files w' filepath = Some (concat chunks)
         \<and> (\<forall>q. q \<noteq> filepath \<longrightarrow> files w' q = files w q)))"
proof (intro conjI impI)
  assume "int (length old) = file_size finfo"
  with assms show "simple_download_advanced cfg get clock filepath finfo w = (w, Inr True)"
    by (rule simple_download_complete)
next
  let ?hdr = "Some (''bytes='' @ py_str (int (length old)) @ ''-'')"
  assume a: "0 < length old \<and> int (length old) \<noteq> file_size finfo \<and> get ?hdr = Stream chunks True"
  define w2 where "w2 = open_file filepath ModeAB (log_io (HttpGet ?hdr) w)"
  define w3 where "w3 = fst (simple_write_loop cfg clock filepath chunks (w2, clock 0, 1))"
  have run: "simple_download_advanced cfg get clock filepath finfo w = (w3, Inr True)"
    unfolding w3_def w2_def
    using simple_download_resume[OF assms, of finfo get chunks True clock] a by simp
  have f2: "files w2 filepath = Some old"
    using assms(1) by (simp add: w2_def files_open_file)
  have other: "files w2 q = files w q" if "q \<noteq> filepath" for q
    using that by (simp add: w2_def files_open_file)
  have l2: "requests_of (io_log w2) = requests_of (io_log w) @ [?hdr]"
    "opens_of (io_log w2) = opens_of (io_log w) @ [(filepath, ModeAB)]"
    by (simp_all add: w2_def requests_of_append opens_of_append)
  have f3: "files w3 q = (if q = filepath then Some (old @ concat chunks) else files w2 q)" for q
    unfolding w3_def by (rule simple_write_loop_files[OF f2])
  have l3: "requests_of (io_log w3) = requests_of (io_log w2)"
    "opens_of (io_log w3) = opens_of (io_log w2)"
    unfolding w3_def by (rule simple_write_loop_requests simple_write_loop_opens)+
  have len: "\<exists>final. files w3 filepath = Some final
                \<and> int (length final) = file_size finfo \<and> take (length old) final = old"
    if "concat chunks = resource_from res (int (length old))"
       "int (length res) = file_size finfo" "int (length old) < file_size finfo" for res
    using that by (simp add: f3 resource_from_def)
  show "case simple_download_advanced cfg get clock filepath finfo w of (w', r) \<Rightarrow>
           r = Inr True
         \<and> requests_of (io_log w') = requests_of (io_log w) @ [?hdr]
         \<and> opens_of (io_log w') = opens_of (io_log w) @ [(filepath, ModeAB)]
         \<and> files w' filepath = Some (old @ concat chunks)
         \<and> (\<forall>q. q \<noteq> filepath \<longrightarrow> files w' q = files w q)
         \<and> (\<forall>res. concat chunks = resource_from res (int (length old))
                \<and> int (length res) = file_size finfo
                \<and> int (length old) < file_size finfo \<longrightarrow>
                (\<exists>final. files w' filepath = Some final
                   \<and> int (length final) = file_size finfo
                   \<and> take (length old) final = old))"
    unfolding run prod.case using len other f3 l2 l3 by auto
next
  assume a: "length old = 0 \<and> file_size finfo \<noteq> 0 \<and> get None = Stream chunks True"
  define w2 where "w2 = open_file filepath ModeWB (log_io (HttpGet None) w)"
  define w3 where "w3 = fst (simple_write_loop cfg clock filepath chunks (w2, clock 0, 1))"
  have run: "simple_download_advanced cfg get clock filepath finfo w = (w3, Inr True)"
    unfolding w3_def w2_def
    using simple_download_fresh[of w filepath cfg finfo get chunks True clock] a assms by simp
  have f2: "files w2 filepath = Some []"
    by (simp add: w2_def files_open_file)
  have other: "files w2 q = files w q" if "q \<noteq> filepath" for q
    using that by (simp add: w2_def files_open_file)
  have l2: "requests_of (io_log w2) = requests_of (io_log w) @ [None]"
    "opens_of (io_log w2) = opens_of (io_log w) @ [(filepath, ModeWB)]"
    by (simp_all add: w2_def requests_of_append opens_of_append)
  have f3: "files w3 q = (if q = filepath then Some ([] @ concat chunks) else files w2 q)" for q
    unfolding w3_def by (rule simple_write_loop_files[OF f2])
  have l3: "requests_of (io_log w3) = requests_of (io_log w2)"
    "opens_of (io_log w3) = opens_of (io_log w2)"
    unfolding w3_def by (rule simple_write_loop_requests simple_write_loop_opens)+
  show "case simple_download_advanced cfg get clock filepath finfo w of (w', r) \<Rightarrow>
           r = Inr True
         \<and> requests_of (io_log w') = requests_of (io_log w) @ [None]
         \<and> opens_of (io_log w') = opens_of (io_log w) @ [(filepath, ModeWB)]
         \<and> files w' filepath = Some (concat chunks)
         \<and> (\<forall>q. q \<noteq> filepath \<longrightarrow> files w' q = files w q)"
    unfolding run prod.case using other f3 l2 l3 by auto
qed

lemmas str_eval = py_str_def str_nat.simps digit_char_def

lemmas simple_eval =
  simple_download_advanced_def exists_file_def getsize_def Let_def open_file_def log_io_def
  write_file_def str_eval fresh_world_def world_with_def table_server_def DEFAULT_CONFIG_def

theorem resume_appends_after_existing_bytes_witness:
  "files (world_with ''f'' ''0123'') ''f'' = Some ''0123''
   \<and> resume_downloads DEFAULT_CONFIG
   \<and> simple_download_advanced DEFAULT_CONFIG
        (table_server [(Some ''bytes=4-'', Stream [''45'', ''6789''] True)]) (\<lambda>k. 0) ''f''
        \<lparr>file_size = 4, supports_resume = True\<rparr> (world_with ''f'' ''0123'')
       = (world_with ''f'' ''0123'', Inr True)
   \<and> files (fst (simple_download_advanced DEFAULT_CONFIG
        (table_server [(Some ''bytes=4-'', Stream [''45'', ''6789''] True)]) (\<lambda>k. 0) ''f''
        \<lparr>file_size = 10, supports_resume = True\<rparr> (world_with ''f'' ''0123''))) ''f''
       = Some ''0123456789''
   \<and> requests_of (io_log (fst (simple_download_advanced DEFAULT_CONFIG
        (table_server [(Some ''bytes=4-'', Stream [''45'', ''6789''] True)]) (\<lambda>k. 0) ''f''
        \<lparr>file_size = 10, supports_resume = True\<rparr> (world_with ''f'' ''0123''))))
       = [Some ''bytes=4-'']
   \<and> opens_of (io_log (fst (simple_download_advanced DEFAULT_CONFIG
        (table_server [(Some ''bytes=4-'', Stream [''45'', ''6789''] True)]) (\<lambda>k. 0) ''f''
        \<lparr>file_size = 10, supports_resume = True\<rparr> (world_with ''f'' ''0123''))))
       = [(''f'', ModeAB)]"
proof -
  let ?get = "table_server [(Some ''bytes=4-'', Stream [''45'', ''6789''] True)]"
  let ?w = "world_with ''f'' ''0123''"
  have h1: "files ?w ''f'' = Some ''0123''" by (simp add: world_with_def)
  have h2: "resume_downloads DEFAULT_CONFIG" by (simp add: DEFAULT_CONFIG_def)
  have h3: "?get (Some (''bytes='' @ py_str (int (length ''0123'')) @ ''-''))
              = Stream [''45'', ''6789''] True"
    by (simp add: table_server_def str_eval)
  have l: "requests_of (io_log ?w) = []" "opens_of (io_log ?w) = []"
    "py_str (int (length ''0123'')) = ''4''"
    by (simp_all add: world_with_def str_eval)
  note t1 = resume_appends_after_existing_bytes[OF h1 h2,
      where finfo = "\<lparr>file_size = 4, supports_resume = True\<rparr>" and get = ?get
        and clock = "\<lambda>k. 0" and chunks = "[''45'', ''6789'']"]
  note t2 = resume_appends_after_existing_bytes[OF h1 h2,
      where finfo = "\<lparr>file_size = 10, supports_resume = True\<rparr>" and get = ?get
        and clock = "\<lambda>k. 0" and chunks = "[''45'', ''6789'']"]
  have r1: "simple_download_advanced DEFAULT_CONFIG ?get (\<lambda>k. 0) ''f''
        \<lparr>file_size = 4, supports_resume = True\<rparr> ?w = (?w, Inr True)"
    using t1 by simp
  from t2 h3 l have "case simple_download_advanced DEFAULT_CONFIG ?get (\<lambda>k. 0) ''f''
        \<lparr>file_size = 10, supports_resume = True\<rparr> ?w of (w', r) \<Rightarrow>
           requests_of (io_log w') = [Some ''bytes=4-'']
         \<and> opens_of (io_log w') = [(''f'', ModeAB)]
         \<and> files w' ''f'' = Some ''0123456789''"
    by (simp split: prod.splits)
  with h1 h2 r1 show ?thesis by (simp split: prod.splits)
qed

text \<open>
  Claim C4 as stated fails for an existing empty file (\<open>L = 0\<close>, below the expected
  size 3): the request carries no \<^verbatim>\<open>Range\<close> header and the file is opened with
  \<^verbatim>\<open>wb\<close>, although the server would answer \<^verbatim>\<open>Range: bytes=0-\<close> too.
\<close>

theorem resume_empty_file_counterexample:
  "exists_file (world_with ''f'' []) ''f''
   \<and> resume_downloads DEFAULT_CONFIG
   \<and> getsize (world_with ''f'' []) ''f'' = 0
   \<and> getsize (world_with ''f'' []) ''f'' < file_size \<lparr>file_size = 3, supports_resume = False\<rparr>
   \<and> io_log (fst (simple_download_advanced DEFAULT_CONFIG
        (table_server [(None, Stream [''abc''] True), (Some ''bytes=0-'', Stream [''abc''] True)])
        (\<lambda>k. 0) ''f'' \<lparr>file_size = 3, supports_resume = False\<rparr> (world_with ''f'' [])))
       = [HttpGet None, OpenFile ''f'' ModeWB]"
  by (simp add: simple_eval)

section \<open>Dispatch for an unknown size\<close>

text \<open>The single-stream download, in general.\<close>

lemma simple_download_short_circuit:
  assumes "exists_file w filepath \<and> resume_downloads cfg \<and> getsize w filepath = file_size finfo"
  shows "simple_download_advanced cfg get clock filepath finfo w = (w, Inr True)"
  using assms by (simp add: simple_download_advanced_def)

lemma simple_download_request:
  assumes "\<not> (exists_file w filepath \<and> resume_downloads cfg \<and> getsize w filepath = file_size finfo)"
  shows "requests_of (io_log (fst (simple_download_advanced cfg get clock filepath finfo w)))
           = requests_of (io_log w)
               @ [if resume_downloads cfg \<and> 0 < getsize w filepath
                  then Some (''bytes='' @ py_str (getsize w filepath) @ ''-'') else None]"
proof -
  have pos: "0 < getsize w filepath \<Longrightarrow> exists_file w filepath"
    by (auto simp: getsize_def exists_file_def split: option.splits)
  define range where "range = (if resume_downloads cfg \<and> 0 < getsize w filepath
      then Some (''bytes='' @ py_str (getsize w filepath) @ ''-'') else None)"
  define mode where "mode = (if resume_downloads cfg \<and> 0 < getsize w filepath
      then ModeAB else ModeWB)"
  have run: "simple_download_advanced cfg get clock filepath finfo w =
      (case get range of
         Refused \<Rightarrow> (log_io (HttpGet range) w, Inl RequestException)
       | Stream chunks ok \<Rightarrow>
           (fst (simple_write_loop cfg clock filepath chunks
                   (open_file filepath mode (log_io (HttpGet range) w), clock 0, 1)),
            if ok then Inr True else Inl RequestException))"
    using assms pos unfolding range_def mode_def
    by (auto simp add: simple_download_advanced_def Let_def split: response.splits)
  show ?thesis
    unfolding range_def[symmetric] run
    by (cases "get range")
       (simp_all add: requests_of_append simple_write_loop_requests)
qed

lemma simple_download_body:
  assumes "\<not> (exists_file w filepath \<and> resume_downloads cfg \<and> getsize w filepath = file_size finfo)"
    and "get (if resume_downloads cfg \<and> 0 < getsize w filepath
              then Some (''bytes='' @ py_str (getsize w filepath) @ ''-'') else None)
           = Stream chunks True"
  shows "snd (simple_download_advanced cfg get clock filepath finfo w) = Inr True"
    and "files (fst (simple_download_advanced cfg get clock filepath finfo w)) filepath
           = Some ((if resume_downloads cfg
                    then (case files w filepath of None \<Rightarrow> [] | Some d \<Rightarrow> d) else [])
                   @ concat chunks)"
proof -
  have pos: "0 < getsize w filepath \<Longrightarrow> exists_file w filepath"
    by (auto simp: getsize_def exists_file_def split: option.splits)
  define range where "range = (if resume_downloads cfg \<and> 0 < getsize w filepath
      then Some (''bytes='' @ py_str (getsize w filepath) @ ''-'') else None)"
  define mode where "mode = (if resume_downloads cfg \<and> 0 < getsize w filepath
      then ModeAB else ModeWB)"
  define w2 where "w2 = open_file filepath mode (log_io (HttpGet range) w)"
  define kept where "kept = (if resume_downloads cfg
      then (case files w filepath of None \<Rightarrow> [] | Some d \<Rightarrow> d) else [])"
  have g: "get range = Stream chunks True" using assms(2) by (simp add: range_def)
  have run: "simple_download_advanced cfg get clock filepath finfo w =
      (fst (simple_write_loop cfg clock filepath chunks (w2, clock 0, 1)), Inr True)"
    using assms(1) pos g unfolding range_def mode_def w2_def
    by (auto simp add: simple_download_advanced_def Let_def)
  have f2: "files w2 filepath = Some kept"
    unfolding w2_def mode_def kept_def
    by (auto simp add: files_open_file getsize_def split: option.splits)
  show "snd (simple_download_advanced cfg get clock filepath finfo w) = Inr True"
    unfolding run by simp
  show "files (fst (simple_download_advanced cfg get clock filepath finfo w)) filepath
           = Some ((if resume_downloads cfg
                    then (case files w filepath of None \<Rightarrow> [] | Some d \<Rightarrow> d) else [])
                   @ concat chunks)"
    unfolding run kept_def[symmetric]
    using simple_write_loop_files[OF f2, of cfg clock chunks "clock 0" 1 filepath] by simp
qed

text \<open>The hash step opens the file and changes nothing else.\<close>

lemma files_calculate_file_hash [simp]: "files (calculate_file_hash filepath w) = files w"
  by (simp add: calculate_file_hash_def open_file_def log_io_def)

lemma requests_of_calculate_file_hash [simp]:
  "requests_of (io_log (calculate_file_hash filepath w)) = requests_of (io_log w)"
  by (simp add: calculate_file_hash_def requests_of_append)

text \<open>The renaming loop returns a path that does not exist, and it returns when it meets one.\<close>

lemma rename_loop_fresh:
  assumes "rename_loop join w dir base ext counter filepath = Some p"
  shows "\<not> exists_file w p"
proof (rule rename_loop.raw_induct[where P = "\<lambda>j w d b e c f p. \<not> exists_file w p", OF _ assms])
  fix rename_loop' :: "(string \<Rightarrow> string \<Rightarrow> string) \<Rightarrow> world \<Rightarrow> string \<Rightarrow> string \<Rightarrow> string \<Rightarrow> int
                          \<Rightarrow> path \<Rightarrow> path option"
    and join w dir base ext counter filepath y
  assume ih: "\<And>j w d b e c f y. rename_loop' j w d b e c f = Some y \<Longrightarrow> \<not> exists_file w y"
    and step: "(if exists_file w filepath
                then rename_loop' join w dir base ext (counter + 1)
                       (join dir (base @ ''_'' @ py_str counter @ ext))
                else Some filepath) = Some y"
  show "\<not> exists_file w y"
  proof (cases "exists_file w filepath")
    case True
    with step ih show ?thesis by simp
  next
    case False
    with step show ?thesis by simp
  qed
qed

lemma rename_loop_returns:
  assumes "\<not> exists_file w (join dir (base @ ''_'' @ py_str (counter + int k) @ ext))"
  shows "\<exists>p. rename_loop join w dir base ext counter filepath = Some p"
  using assms
proof (induction k arbitrary: counter filepath)
  case 0
  show ?case
  proof (cases "exists_file w filepath")
    case True
    then have "rename_loop join w dir base ext counter filepath
                 = rename_loop join w dir base ext (counter + 1)
                     (join dir (base @ ''_'' @ py_str counter @ ext))"
      by (subst rename_loop.simps) simp
    also have "\<dots> = Some (join dir (base @ ''_'' @ py_str counter @ ext))"
      using 0 by (subst rename_loop.simps) simp
    finally show ?thesis by blast
  next
    case False
    then show ?thesis by (subst rename_loop.simps) simp
  qed
next
  case (Suc k)
  show ?case
  proof (cases "exists_file w filepath")
    case True
    then have "rename_loop join w dir base ext counter filepath
                 = rename_loop join w dir base ext (counter + 1)
                     (join dir (base @ ''_'' @ py_str counter @ ext))"
      by (subst rename_loop.simps) simp
    moreover have "\<exists>p. rename_loop join w dir base ext (counter + 1)
                     (join dir (base @ ''_'' @ py_str counter @ ext)) = Some p"
    proof (rule Suc.IH)
      show "\<not> exists_file w (join dir (base @ ''_'' @ py_str (counter + 1 + int k) @ ext))"
        using Suc.prems by (simp add: add.assoc)
    qed
    ultimately show ?thesis by simp
  next
    case False
    then show ?thesis by (subst rename_loop.simps) simp
  qed
qed

lemma auto_rename_filepath_fresh:
  assumes "auto_rename cfg" and "auto_rename_filepath join splitext cfg w fname filepath = Some p"
  shows "files w p = None"
proof (cases "exists_file w filepath")
  case True
  with assms obtain base ext where
    "rename_loop join w (download_dir cfg) base ext 1 filepath = Some p"
    by (auto simp: auto_rename_filepath_def split: prod.splits)
  then show ?thesis using rename_loop_fresh by (simp add: exists_file_def)
next
  case False
  with assms show ?thesis by (simp add: auto_rename_filepath_def exists_file_def)
qed

lemma auto_rename_filepath_off:
  "\<not> auto_rename cfg \<Longrightarrow> auto_rename_filepath join splitext cfg w fname filepath = Some filepath"
  by (simp add: auto_rename_filepath_def)

text \<open>The engine step returns whenever the renaming loop finds a free name.\<close>

lemma professional_download_after_probe_returns:
  assumes "\<not> auto_rename cfg \<or> \<not> exists_file w (join (download_dir cfg) fname)
           \<or> (\<exists>k. \<not> exists_file w
                      (join (download_dir cfg)
                         (fst (splitext fname) @ ''_'' @ py_str (1 + int k)
                            @ snd (splitext fname))))"
  shows "\<exists>r. professional_download_after_probe join splitext cfg get sched polls clock
                has_space answer fname finfo w = Some r"
proof -
  have "\<exists>p. auto_rename_filepath join splitext cfg w fname (join (download_dir cfg) fname)
               = Some p"
  proof (cases "auto_rename cfg \<and> exists_file w (join (download_dir cfg) fname)")
    case True
    with assms obtain k where
      "\<not> exists_file w (join (download_dir cfg)
                          (fst (splitext fname) @ ''_'' @ py_str (1 + int k)
                             @ snd (splitext fname)))"
      by blast
    from rename_loop_returns[of w join "download_dir cfg" "fst (splitext fname)" 1 k
        "snd (splitext fname)" "join (download_dir cfg) fname", OF this] True
    show ?thesis by (simp add: auto_rename_filepath_def case_prod_beta)
  next
    case False
    then show ?thesis by (auto simp add: auto_rename_filepath_def)
  qed
  then obtain p where
    "auto_rename_filepath join splitext cfg w fname (join (download_dir cfg) fname) = Some p"
    by blast
  then show ?thesis
    by (auto simp add: professional_download_after_probe_def Let_def)
qed

text \<open>The transfer for size 0 in terms of the single-stream download.\<close>

lemma unknown_size_transfer:
  assumes "file_size finfo = 0"
  shows "professional_download_transfer cfg get sched polls clock filepath finfo w =
       (case simple_download_advanced cfg get clock filepath finfo w of
          (w', Inl e) \<Rightarrow> (w', False)
        | (w', Inr success) \<Rightarrow>
            if success
            then ((if hash_verification cfg then calculate_file_hash filepath w' else w'), True)
            else (w', False))"
  using assms
  by (simp add: professional_download_transfer_def split: prod.splits sum.splits)

lemma unknown_size_short_circuit:
  assumes "file_size finfo = 0"
  shows "(exists_file w filepath \<and> resume_downloads cfg \<and> getsize w filepath = file_size finfo)
           = (files w filepath = Some [] \<and> resume_downloads cfg)"
  using assms by (auto simp: exists_file_def getsize_def split: option.splits)

lemma unknown_size_effects:
  assumes "file_size finfo = 0"
  shows "requests_of (io_log (fst (professional_download_transfer cfg get sched polls clock
                                    filepath finfo w)))
           = requests_of (io_log (fst (simple_download_advanced cfg get clock filepath finfo w)))"
    and "files (fst (professional_download_transfer cfg get sched polls clock filepath finfo w))
           = files (fst (simple_download_advanced cfg get clock filepath finfo w))"
    and "snd (professional_download_transfer cfg get sched polls clock filepath finfo w)
           = (snd (simple_download_advanced cfg get clock filepath finfo w) = Inr True)"
  unfolding unknown_size_transfer[OF assms]
  by (cases "simple_download_advanced cfg get clock filepath finfo w";
      cases "snd (simple_download_advanced cfg get clock filepath finfo w)"; simp)+

lemmas engine_eval =
  professional_download_after_probe_def auto_rename_filepath_def
  professional_download_transfer_def calculate_file_hash_def posix_join_def posix_splitext_def
  lower_def

text \<open>
  Claim C8, as amended. When the probed size is 0 the planner is not run: the transfer is
  the single-stream download on the chosen path, followed, when it succeeds and hash
  verification is on, by one more opening of the destination for reading. The transfer
  ends without any request exactly when the chosen path holds a zero-length file and
  resume is enabled; then it succeeds and no file is changed. In every other case it sends
  exactly one request, with the header \<^verbatim>\<open>Range: bytes=L-\<close> when resume is enabled and
  the destination holds \<open>L > 0\<close> bytes and without a range otherwise; when the stream of
  the answer ends normally the transfer succeeds and the destination holds the bytes kept
  (the old content when resume is enabled, nothing otherwise) followed by the whole body,
  and the destination was opened once for writing and, with hash verification, once for
  reading. For the engine, once the disk check has passed and the user has not declined:
  it ends without any request exactly when renaming is off, the path joined from the
  download directory and the file name holds a zero-length file, and resume is enabled
  (with renaming on, an existing file makes the engine choose a fresh name). The engine
  returns whenever renaming is off, the joined path is free, or some candidate name is
  free, and what it returns is the transfer on the path that the renaming step chose.
\<close>

theorem zero_size_takes_single_stream:
  assumes "file_size finfo = 0"
  shows
    "professional_download_transfer cfg get sched polls clock filepath finfo w =
       (case simple_download_advanced cfg get clock filepath finfo w of
          (w', Inl e) \<Rightarrow> (w', False)
        | (w', Inr success) \<Rightarrow>
            if success
            then ((if hash_verification cfg then calculate_file_hash filepath w' else w'), True)
            else (w', False))
   \<and> ((requests_of (io_log (fst (professional_download_transfer cfg get sched polls clock
                                   filepath finfo w))) = requests_of (io_log w))
        = (files w filepath = Some [] \<and> resume_downloads cfg))
   \<and> (files w filepath = Some [] \<and> resume_downloads cfg \<longrightarrow>
        snd (professional_download_transfer cfg get sched polls clock filepath finfo w)
      \<and> files (fst (professional_download_transfer cfg get sched polls clock filepath finfo w))
          = files w)
   \<and> (\<not> (files w filepath = Some [] \<and> resume_downloads cfg) \<longrightarrow>
        requests_of (io_log (fst (professional_download_transfer cfg get sched polls clock
                                    filepath finfo w)))
          = requests_of (io_log w)
              @ [if resume_downloads cfg \<and> 0 < getsize w filepath
                 then Some (''bytes='' @ py_str (getsize w filepath) @ ''-'') else None])
   \<and> (\<not> (files w filepath = Some [] \<and> resume_downloads cfg)
        \<and> get (if resume_downloads cfg \<and> 0 < getsize w filepath
                then Some (''bytes='' @ py_str (getsize w filepath) @ ''-'') else None)
            = Stream chunks True \<longrightarrow>
        snd (professional_download_transfer cfg get sched polls clock filepath finfo w)
      \<and> files (fst (professional_download_transfer cfg get sched polls clock filepath finfo w))
            filepath
          = Some ((if resume_downloads cfg
                   then (case files w filepath of None \<Rightarrow> [] | Some d \<Rightarrow> d) else [])
                  @ concat chunks)
      \<and> opens_of (io_log (fst (professional_download_transfer cfg get sched polls clock
                                  filepath finfo w)))
          = opens_of (io_log w)
              @ (filepath, if resume_downloads cfg \<and> 0 < getsize w filepath
                           then ModeAB else ModeWB)
              # (if hash_verification cfg then [(filepath, ModeRB)] else []))
   \<and> (\<not> (check_disk_space cfg \<and> \<not> has_space) \<and> lower answer \<noteq> ''n''
        \<and> professional_download_after_probe join splitext cfg get sched polls clock has_space
             answer fname finfo w = Some (w', success) \<longrightarrow>
        (requests_of (io_log w') = requests_of (io_log w))
          = (\<not> auto_rename cfg \<and> files w (join (download_dir cfg) fname) = Some []
               \<and> resume_downloads cfg))
   \<and> (\<not> auto_rename cfg \<or> \<not> exists_file w (join (download_dir cfg) fname)
        \<or> (\<exists>k. \<not> exists_file w
                   (join (download_dir cfg)
                      (fst (splitext fname) @ ''_'' @ py_str (1 + int k)
                         @ snd (splitext fname)))) \<longrightarrow>
        (\<exists>r. professional_download_after_probe join splitext cfg get sched polls clock
               has_space answer fname finfo w = Some r))
   \<and> (\<not> (check_disk_space cfg \<and> \<not> has_space) \<and> lower answer \<noteq> ''n''
        \<and> auto_rename_filepath join splitext cfg w fname (join (download_dir cfg) fname)
            = Some fp \<longrightarrow>
        professional_download_after_probe join splitext cfg get sched polls clock has_space
          answer fname finfo w
          = Some (professional_download_transfer cfg get sched polls clock fp finfo w))"
proof (intro conjI impI)
  let ?transfer = "professional_download_transfer cfg get sched polls clock filepath finfo w"
  let ?simple = "simple_download_advanced cfg get clock filepath finfo w"
  let ?sc = "files w filepath = Some [] \<and> resume_downloads cfg"
  let ?range = "if resume_downloads cfg \<and> 0 < getsize w filepath
                then Some (''bytes='' @ py_str (getsize w filepath) @ ''-'') else None"
  note eff = unknown_size_effects[OF assms, of cfg get sched polls clock filepath w]
  note iff = unknown_size_short_circuit[OF assms, of w filepath cfg]
  show "?transfer =
       (case ?simple of
          (w', Inl e) \<Rightarrow> (w', False)
        | (w', Inr success) \<Rightarrow>
            if success
            then ((if hash_verification cfg then calculate_file_hash filepath w' else w'), True)
            else (w', False))"
    by (rule unknown_size_transfer[OF assms])
  have sc: "?simple = (w, Inr True)" if ?sc
    using that iff simple_download_short_circuit[of w filepath cfg finfo get clock] by blast
  have req: "requests_of (io_log (fst ?simple)) = requests_of (io_log w) @ [?range]" if "\<not> ?sc"
    using that iff simple_download_request[of w filepath cfg finfo get clock] by blast
  show "(requests_of (io_log (fst ?transfer)) = requests_of (io_log w)) = ?sc"
  proof (cases ?sc)
    case True
    then show ?thesis unfolding eff(1) using sc by simp
  next
    case False
    then show ?thesis unfolding eff(1) using req by simp
  qed
  show "snd ?transfer" if ?sc
    unfolding eff(3) using sc[OF that] by simp
  show "files (fst ?transfer) = files w" if ?sc
    unfolding eff(2) using sc[OF that] by simp
  show "requests_of (io_log (fst ?transfer)) = requests_of (io_log w) @ [?range]" if "\<not> ?sc"
    unfolding eff(1) using req[OF that] .
  {
    assume a: "\<not> ?sc \<and> get ?range = Stream chunks True"
    then have nsc: "\<not> (exists_file w filepath \<and> resume_downloads cfg
                         \<and> getsize w filepath = file_size finfo)"
      using iff by blast
    from a have g: "get ?range = Stream chunks True" by blast
    note body = simple_download_body[of w filepath cfg finfo get chunks clock, OF nsc g]
    show "snd ?transfer" unfolding eff(3) using body(1) .
    show "files (fst ?transfer) filepath
          = Some ((if resume_downloads cfg
                   then (case files w filepath of None \<Rightarrow> [] | Some d \<Rightarrow> d) else [])
                  @ concat chunks)"
      unfolding eff(2) using body(2) .
    show "opens_of (io_log (fst ?transfer))
          = opens_of (io_log w)
              @ (filepath, if resume_downloads cfg \<and> 0 < getsize w filepath
                           then ModeAB else ModeWB)
              # (if hash_verification cfg then [(filepath, ModeRB)] else [])"
    proof -
      have pos: "0 < getsize w filepath \<Longrightarrow> exists_file w filepath"
        by (auto simp: getsize_def exists_file_def split: option.splits)
      define mode where "mode = (if resume_downloads cfg \<and> 0 < getsize w filepath
          then ModeAB else ModeWB)"
      define w2 where "w2 = open_file filepath mode (log_io (HttpGet ?range) w)"
      define w3 where "w3 = fst (simple_write_loop cfg clock filepath chunks (w2, clock 0, 1))"
      have run: "?simple = (w3, Inr True)"
        using nsc pos g unfolding mode_def w2_def w3_def
        by (auto simp add: simple_download_advanced_def Let_def)
      have o3: "opens_of (io_log w3) = opens_of (io_log w) @ [(filepath, mode)]"
        unfolding w3_def simple_write_loop_opens
        by (simp add: w2_def opens_of_append)
      have ex3: "exists_file w3 filepath"
        using body(2) unfolding run by (simp add: exists_file_def)
      show ?thesis
        unfolding unknown_size_transfer[OF assms] run mode_def[symmetric]
        using o3 ex3 by (simp add: calculate_file_hash_def opens_of_append)
    qed
  }
  {
    assume a: "\<not> (check_disk_space cfg \<and> \<not> has_space) \<and> lower answer \<noteq> ''n''
        \<and> professional_download_after_probe join splitext cfg get sched polls clock has_space
             answer fname finfo w = Some (w', success)"
    let ?fp0 = "join (download_dir cfg) fname"
    from a obtain fp where ren: "auto_rename_filepath join splitext cfg w fname ?fp0 = Some fp"
      and res: "professional_download_transfer cfg get sched polls clock fp finfo w
                  = (w', success)"
      by (auto simp: professional_download_after_probe_def Let_def split: option.splits)
    have t: "(requests_of (io_log w') = requests_of (io_log w))
               = (files w fp = Some [] \<and> resume_downloads cfg)"
    proof -
      note e = unknown_size_effects(1)[OF assms, of cfg get sched polls clock fp w]
      note i = unknown_size_short_circuit[OF assms, of w fp cfg]
      show ?thesis
      proof (cases "files w fp = Some [] \<and> resume_downloads cfg")
        case True
        then have "simple_download_advanced cfg get clock fp finfo w = (w, Inr True)"
          using i simple_download_short_circuit[of w fp cfg finfo get clock] by blast
        with True e res show ?thesis by simp
      next
        case False
        then have "requests_of (io_log (fst (simple_download_advanced cfg get clock fp finfo w)))
                     = requests_of (io_log w)
                         @ [if resume_downloads cfg \<and> 0 < getsize w fp
                            then Some (''bytes='' @ py_str (getsize w fp) @ ''-'') else None]"
          using i simple_download_request[of w fp cfg finfo get clock] by blast
        with False e res show ?thesis by simp
      qed
    qed
    show "(requests_of (io_log w') = requests_of (io_log w))
          = (\<not> auto_rename cfg \<and> files w ?fp0 = Some [] \<and> resume_downloads cfg)"
    proof (cases "auto_rename cfg")
      case True
      then have "files w fp = None" using ren by (rule auto_rename_filepath_fresh)
      with True t show ?thesis by simp
    next
      case False
      then have "fp = ?fp0" using ren by (simp add: auto_rename_filepath_off)
      with False t show ?thesis by simp
    qed
  }
  {
    assume "\<not> auto_rename cfg \<or> \<not> exists_file w (join (download_dir cfg) fname)
        \<or> (\<exists>k. \<not> exists_file w
                   (join (download_dir cfg)
                      (fst (splitext fname) @ ''_'' @ py_str (1 + int k)
                         @ snd (splitext fname))))"
    then show "\<exists>r. professional_download_after_probe join splitext cfg get sched polls clock
               has_space answer fname finfo w = Some r"
      by (rule professional_download_after_probe_returns)
  }
  {
    assume "\<not> (check_disk_space cfg \<and> \<not> has_space) \<and> lower answer \<noteq> ''n''
        \<and> auto_rename_filepath join splitext cfg w fname (join (download_dir cfg) fname)
            = Some fp"
    then show "professional_download_after_probe join splitext cfg get sched polls clock
          has_space answer fname finfo w
          = Some (professional_download_transfer cfg get sched polls clock fp finfo w)"
      by (auto simp add: professional_download_after_probe_def Let_def)
  }
qed

theorem zero_size_takes_single_stream_witness:
  "file_size \<lparr>file_size = 0, supports_resume = True\<rparr> = 0
   \<and> snd (professional_download_transfer DEFAULT_CONFIG
             (table_server [(None, Stream [''abc''] True)]) id 2 (\<lambda>k. 0) ''f''
             \<lparr>file_size = 0, supports_resume = True\<rparr> fresh_world)
   \<and> files (fst (professional_download_transfer DEFAULT_CONFIG
             (table_server [(None, Stream [''abc''] True)]) id 2 (\<lambda>k. 0) ''f''
             \<lparr>file_size = 0, supports_resume = True\<rparr> fresh_world)) ''f'' = Some ''abc''
   \<and> requests_of (io_log (fst (professional_download_transfer DEFAULT_CONFIG
             (table_server [(None, Stream [''abc''] True)]) id 2 (\<lambda>k. 0) ''f''
             \<lparr>file_size = 0, supports_resume = True\<rparr> fresh_world))) = [None]
   \<and> opens_of (io_log (fst (professional_download_transfer DEFAULT_CONFIG
             (table_server [(None, Stream [''abc''] True)]) id 2 (\<lambda>k. 0) ''f''
             \<lparr>file_size = 0, supports_resume = True\<rparr> fresh_world)))
       = [(''f'', ModeWB), (''f'', ModeRB)]
   \<and> snd (professional_download_transfer DEFAULT_CONFIG
             (table_server [(None, Stream [''abc''] True)]) id 2 (\<lambda>k. 0) ''f''
             \<lparr>file_size = 0, supports_resume = True\<rparr> (world_with ''f'' []))
   \<and> requests_of (io_log (fst (professional_download_transfer DEFAULT_CONFIG
             (table_server [(None, Stream [''abc''] True)]) id 2 (\<lambda>k. 0) ''f''
             \<lparr>file_size = 0, supports_resume = True\<rparr> (world_with ''f'' [])))) = []
   \<and> files (fst (professional_download_transfer DEFAULT_CONFIG
             (table_server [(None, Stream [''abc''] True)]) id 2 (\<lambda>k. 0) ''f''
             \<lparr>file_size = 0, supports_resume = True\<rparr> (world_with ''f'' [])))
       = files (world_with ''f'' [])
   \<and> professional_download_after_probe posix_join posix_splitext DEFAULT_CONFIG
         (table_server [(None, Stream [''abc''] True)]) id 2 (\<lambda>k. 0) True [] ''f.bin''
         \<lparr>file_size = 0, supports_resume = True\<rparr>
         (world_with ''/home/user/Downloads/XTERNAL/f.bin'' [])
       = Some (professional_download_transfer DEFAULT_CONFIG
                 (table_server [(None, Stream [''abc''] True)]) id 2 (\<lambda>k. 0)
                 ''/home/user/Downloads/XTERNAL/f_1.bin''
                 \<lparr>file_size = 0, supports_resume = True\<rparr>
                 (world_with ''/home/user/Downloads/XTERNAL/f.bin'' []))
   \<and> requests_of (io_log (fst (professional_download_transfer DEFAULT_CONFIG
                 (table_server [(None, Stream [''abc''] True)]) id 2 (\<lambda>k. 0)
                 ''/home/user/Downloads/XTERNAL/f_1.bin''
                 \<lparr>file_size = 0, supports_resume = True\<rparr>
                 (world_with ''/home/user/Downloads/XTERNAL/f.bin'' []))))
       \<noteq> requests_of (io_log (world_with ''/home/user/Downloads/XTERNAL/f.bin'' []))
   \<and> professional_download_after_probe posix_join posix_splitext
         (DEFAULT_CONFIG\<lparr>auto_rename := False\<rparr>)
         (table_server [(None, Stream [''abc''] True)]) id 2 (\<lambda>k. 0) True [] ''f.bin''
         \<lparr>file_size = 0, supports_resume = True\<rparr>
         (world_with ''/home/user/Downloads/XTERNAL/f.bin'' [])
       = Some (professional_download_transfer (DEFAULT_CONFIG\<lparr>auto_rename := False\<rparr>)
                 (table_server [(None, Stream [''abc''] True)]) id 2 (\<lambda>k. 0)
                 ''/home/user/Downloads/XTERNAL/f.bin''
                 \<lparr>file_size = 0, supports_resume = True\<rparr>
                 (world_with ''/home/user/Downloads/XTERNAL/f.bin'' []))
   \<and> requests_of (io_log (fst (professional_download_transfer
                 (DEFAULT_CONFIG\<lparr>auto_rename := False\<rparr>)
                 (table_server [(None, Stream [''abc''] True)]) id 2 (\<lambda>k. 0)
                 ''/home/user/Downloads/XTERNAL/f.bin''
                 \<lparr>file_size = 0, supports_resume = True\<rparr>
                 (world_with ''/home/user/Downloads/XTERNAL/f.bin'' []))))
       = requests_of (io_log (world_with ''/home/user/Downloads/XTERNAL/f.bin'' []))
   \<and> (\<exists>r. professional_download_after_probe posix_join posix_splitext DEFAULT_CONFIG
              (table_server [(None, Stream [''abc''] True)]) id 2 (\<lambda>k. 0) True [] ''f.bin''
              \<lparr>file_size = 0, supports_resume = True\<rparr>
              (world_with ''/home/user/Downloads/XTERNAL/f.bin'' []) = Some r)"
proof -
  let ?get = "table_server [(None, Stream [''abc''] True)]"
  let ?fi = "\<lparr>file_size = 0, supports_resume = True\<rparr>"
  let ?p = "''/home/user/Downloads/XTERNAL/f.bin''"
  let ?p1 = "''/home/user/Downloads/XTERNAL/f_1.bin''"
  let ?off = "DEFAULT_CONFIG\<lparr>auto_rename := False\<rparr>"
  let ?t = "\<lambda>cfg p w. professional_download_transfer cfg ?get id 2 (\<lambda>k. 0) p ?fi w"
  let ?e = "\<lambda>cfg w. professional_download_after_probe posix_join posix_splitext cfg
                       ?get id 2 (\<lambda>k. 0) True [] ''f.bin'' ?fi w"
  have h: "file_size ?fi = 0" by simp
  have fresh: "files fresh_world ''f'' = None" "requests_of (io_log fresh_world) = []"
    "opens_of (io_log fresh_world) = []" "getsize fresh_world ''f'' = 0"
    by (simp_all add: fresh_world_def getsize_def)
  have empty: "files (world_with ''f'' []) ''f'' = Some []"
    "requests_of (io_log (world_with ''f'' [])) = []"
    "files (world_with ?p []) ?p = Some []"
    by (simp_all add: world_with_def)
  have cfg: "resume_downloads DEFAULT_CONFIG" "hash_verification DEFAULT_CONFIG"
    "auto_rename DEFAULT_CONFIG" "resume_downloads ?off" "\<not> auto_rename ?off"
    "\<not> (check_disk_space DEFAULT_CONFIG \<and> \<not> True)" "\<not> (check_disk_space ?off \<and> \<not> True)"
    "download_dir DEFAULT_CONFIG = ''/home/user/Downloads/XTERNAL''"
    "download_dir ?off = ''/home/user/Downloads/XTERNAL''"
    by (simp_all add: DEFAULT_CONFIG_def)
  have srv: "?get None = Stream [''abc''] True" by (simp add: table_server_def)
  have ans: "lower [] \<noteq> ''n''" by (simp add: lower_def)
  have jn: "posix_join ''/home/user/Downloads/XTERNAL'' ''f.bin'' = ?p"
    by (simp add: posix_join_def)
  have ren1: "auto_rename_filepath posix_join posix_splitext DEFAULT_CONFIG (world_with ?p [])
      ''f.bin'' (posix_join (download_dir DEFAULT_CONFIG) ''f.bin'') = Some ?p1"
    unfolding auto_rename_filepath_def
    apply (subst rename_loop.simps)
    apply (subst rename_loop.simps)
    apply (simp add: posix_join_def posix_splitext_def exists_file_def world_with_def
        DEFAULT_CONFIG_def str_eval)
    done
  have ren2: "auto_rename_filepath posix_join posix_splitext ?off (world_with ?p [])
      ''f.bin'' (posix_join (download_dir ?off) ''f.bin'') = Some ?p"
    unfolding auto_rename_filepath_def
    by (simp add: posix_join_def DEFAULT_CONFIG_def)
  note t1 = zero_size_takes_single_stream[OF h, where cfg = DEFAULT_CONFIG and get = ?get
      and sched = id and polls = 2 and clock = "\<lambda>k. 0" and filepath = "''f''"
      and w = fresh_world and chunks = "[''abc'']"]
  note t2 = zero_size_takes_single_stream[OF h, where cfg = DEFAULT_CONFIG and get = ?get
      and sched = id and polls = 2 and clock = "\<lambda>k. 0" and filepath = "''f''"
      and w = "world_with ''f'' []" and chunks = "[''abc'']"]
  note t3 = zero_size_takes_single_stream[OF h, where cfg = DEFAULT_CONFIG and get = ?get
      and sched = id and polls = 2 and clock = "\<lambda>k. 0" and w = "world_with ?p []"
      and join = posix_join and splitext = posix_splitext and has_space = True
      and answer = "[]" and fname = "''f.bin''"
      and w' = "fst (?t DEFAULT_CONFIG ?p1 (world_with ?p []))"
      and success = "snd (?t DEFAULT_CONFIG ?p1 (world_with ?p []))" and fp = ?p1]
  note t4 = zero_size_takes_single_stream[OF h, where cfg = ?off and get = ?get
      and sched = id and polls = 2 and clock = "\<lambda>k. 0" and w = "world_with ?p []"
      and join = posix_join and splitext = posix_splitext and has_space = True
      and answer = "[]" and fname = "''f.bin''"
      and w' = "fst (?t ?off ?p (world_with ?p []))"
      and success = "snd (?t ?off ?p (world_with ?p []))" and fp = ?p]
  have e1: "?e DEFAULT_CONFIG (world_with ?p []) = Some (?t DEFAULT_CONFIG ?p1 (world_with ?p []))"
    using t3[THEN conjunct2, THEN conjunct2, THEN conjunct2, THEN conjunct2, THEN conjunct2,
        THEN conjunct2, THEN conjunct2] ren1 cfg(6) ans by blast
  have e2: "?e ?off (world_with ?p []) = Some (?t ?off ?p (world_with ?p []))"
    using t4[THEN conjunct2, THEN conjunct2, THEN conjunct2, THEN conjunct2, THEN conjunct2,
        THEN conjunct2, THEN conjunct2] ren2 cfg(7) ans by blast
  have a1: "snd (?t DEFAULT_CONFIG ''f'' fresh_world)
      \<and> files (fst (?t DEFAULT_CONFIG ''f'' fresh_world)) ''f'' = Some ''abc''
      \<and> opens_of (io_log (fst (?t DEFAULT_CONFIG ''f'' fresh_world)))
          = [(''f'', ModeWB), (''f'', ModeRB)]"
    using t1[THEN conjunct2, THEN conjunct2, THEN conjunct2, THEN conjunct2, THEN conjunct1]
      fresh cfg srv by simp
  have a2: "requests_of (io_log (fst (?t DEFAULT_CONFIG ''f'' fresh_world))) = [None]"
    using t1[THEN conjunct2, THEN conjunct2, THEN conjunct2, THEN conjunct1]
      fresh cfg by simp
  have b1: "snd (?t DEFAULT_CONFIG ''f'' (world_with ''f'' []))
      \<and> files (fst (?t DEFAULT_CONFIG ''f'' (world_with ''f'' []))) = files (world_with ''f'' [])"
    using t2[THEN conjunct2, THEN conjunct2, THEN conjunct1] empty cfg by blast
  have b2: "requests_of (io_log (fst (?t DEFAULT_CONFIG ''f'' (world_with ''f'' [])))) = []"
    using t2[THEN conjunct2, THEN conjunct1] empty cfg by simp
  have c1: "requests_of (io_log (fst (?t DEFAULT_CONFIG ?p1 (world_with ?p []))))
      \<noteq> requests_of (io_log (world_with ?p []))"
    using t3[THEN conjunct2, THEN conjunct2, THEN conjunct2, THEN conjunct2, THEN conjunct2,
        THEN conjunct1]
      e1 cfg(3,6) ans by simp
  have c2: "requests_of (io_log (fst (?t ?off ?p (world_with ?p []))))
      = requests_of (io_log (world_with ?p []))"
    using t4[THEN conjunct2, THEN conjunct2, THEN conjunct2, THEN conjunct2, THEN conjunct2,
        THEN conjunct1]
      e2 cfg(4,5,7,9) ans jn empty(3) by simp
  have free: "\<not> exists_file (world_with ?p [])
      (posix_join (download_dir DEFAULT_CONFIG)
         (fst (posix_splitext ''f.bin'') @ ''_'' @ py_str (1 + int 0)
            @ snd (posix_splitext ''f.bin'')))"
    by (simp add: posix_join_def posix_splitext_def exists_file_def world_with_def
        DEFAULT_CONFIG_def str_eval)
  have d1: "\<exists>r. ?e DEFAULT_CONFIG (world_with ?p []) = Some r"
    using t3[THEN conjunct2, THEN conjunct2, THEN conjunct2, THEN conjunct2, THEN conjunct2,
        THEN conjunct2, THEN conjunct1] free by blast
  show ?thesis
    using h a1 a2 b1 b2 c1 c2 d1 e1 e2 by blast
qed

text \<open>
  Claim C8 as stated fails: for size 0 the planner (were it run, with 16 workers) yields
  16 tasks and not none, and the engine, started on a free destination with the default
  configuration, sends a request and writes the three bytes of the body instead of a
  zero-length file.
\<close>

theorem zero_size_counterexample:
  "file_size \<lparr>file_size = 0, supports_resume = True\<rparr> = 0
   \<and> length (download_tasks 0 16 (0 div 16)) = 16
   \<and> map_option snd
       (professional_download_after_probe posix_join posix_splitext DEFAULT_CONFIG
          (table_server [(None, Stream [''abc''] True)]) id 2 (\<lambda>k. 0) True [] ''f.bin''
          \<lparr>file_size = 0, supports_resume = True\<rparr> fresh_world) = Some True
   \<and> map_option (\<lambda>r. io_log (fst r))
       (professional_download_after_probe posix_join posix_splitext DEFAULT_CONFIG
          (table_server [(None, Stream [''abc''] True)]) id 2 (\<lambda>k. 0) True [] ''f.bin''
          \<lparr>file_size = 0, supports_resume = True\<rparr> fresh_world)
       = Some [HttpGet None, OpenFile ''/home/user/Downloads/XTERNAL/f.bin'' ModeWB,
               OpenFile ''/home/user/Downloads/XTERNAL/f.bin'' ModeRB]
   \<and> map_option (\<lambda>r. files (fst r) ''/home/user/Downloads/XTERNAL/f.bin'')
       (professional_download_after_probe posix_join posix_splitext DEFAULT_CONFIG
          (table_server [(None, Stream [''abc''] True)]) id 2 (\<lambda>k. 0) True [] ''f.bin''
          \<lparr>file_size = 0, supports_resume = True\<rparr> fresh_world)
       = Some (Some ''abc'')"
proof -
  have "length (download_tasks 0 16 (0 div 16)) = 16"
    by (simp add: download_tasks_length)
  moreover have "professional_download_after_probe posix_join posix_splitext DEFAULT_CONFIG
          (table_server [(None, Stream [''abc''] True)]) id 2 (\<lambda>k. 0) True [] ''f.bin''
          \<lparr>file_size = 0, supports_resume = True\<rparr> fresh_world
      = Some (\<lparr>files = (\<lambda>p. if p = ''/home/user/Downloads/XTERNAL/f.bin''
                             then Some ''abc'' else None),
              io_log = [HttpGet None, OpenFile ''/home/user/Downloads/XTERNAL/f.bin'' ModeWB,
                        OpenFile ''/home/user/Downloads/XTERNAL/f.bin'' ModeRB]\<rparr>, True)"
    by (simp add: engine_eval simple_eval fun_eq_iff)
  ultimately show ?thesis by simp
qed

section \<open>Sink names and the effect of a worker\<close>

lemma digit_char_inj: "a < 10 \<Longrightarrow> b < 10 \<Longrightarrow> digit_char a = digit_char b \<Longrightarrow> a = b"
  unfolding digit_char_def
  by (subst (asm) nth_eq_iff_index_eq) auto

lemma str_nat_not_empty: "str_nat n \<noteq> []"
  by (subst str_nat.simps) simp

lemma str_nat_inj: "str_nat a = str_nat b \<Longrightarrow> a = b"
proof (induction a arbitrary: b rule: str_nat.induct)
  case (1 n)
  show ?case
  proof (cases "n < 10")
    case True
    show ?thesis
    proof (cases "b < 10")
      case True
      with \<open>n < 10\<close> "1.prems" show ?thesis
        by (simp add: str_nat.simps[of n] str_nat.simps[of b] digit_char_inj)
    next
      case False
      with \<open>n < 10\<close> "1.prems" str_nat_not_empty[of "b div 10"] show ?thesis
        by (auto simp add: str_nat.simps[of n] str_nat.simps[of b])
    qed
  next
    case False
    show ?thesis
    proof (cases "b < 10")
      case True
      with \<open>\<not> n < 10\<close> "1.prems" show ?thesis
        by (simp add: str_nat.simps[of n] str_nat.simps[of b] str_nat_not_empty)
    next
      case b: False
      from False b "1.prems" have e: "str_nat (n div 10) = str_nat (b div 10)"
        and d: "digit_char (n mod 10) = digit_char (b mod 10)"
        by (simp_all add: str_nat.simps[of n] str_nat.simps[of b])
      from "1.IH"[OF False e] have "n div 10 = b div 10" .
      moreover from d have "n mod 10 = b mod 10" by (intro digit_char_inj) auto
      ultimately show ?thesis by (metis div_mult_mod_eq)
    qed
  qed
qed

lemma py_str_inj: "0 \<le> i \<Longrightarrow> 0 \<le> j \<Longrightarrow> py_str i = py_str j \<Longrightarrow> i = j"
  using str_nat_inj[of "nat i" "nat j"] by (simp add: py_str_def)

lemma part_path_inj:
  "0 \<le> i \<Longrightarrow> 0 \<le> j \<Longrightarrow> part_path filepath i = part_path filepath j \<Longrightarrow> i = j"
  using py_str_inj[of i j] by (simp add: part_path_def)

lemma part_path_not_filepath: "part_path filepath i \<noteq> filepath"
proof
  assume "part_path filepath i = filepath"
  then have "length (part_path filepath i) = length filepath" by simp
  then show False by (simp add: part_path_def)
qed

text \<open>A worker.\<close>

lemma chunk_write_loop_files:
  assumes "files w p = Some old"
  shows "files (chunk_write_loop p chunks w) q
           = (if q = p then Some (old @ concat chunks) else files w q)"
  using assms
proof (induction chunks arbitrary: w old q)
  case Nil
  then show ?case by simp
next
  case (Cons chunk chunks)
  have f1: "files (write_file p chunk w) p = Some (old @ chunk)"
    using Cons.prems by (simp add: files_write_file)
  show ?case
    using Cons.IH[OF f1] Cons.IH[OF Cons.prems] Cons.prems
    by (simp add: files_write_file)
qed

lemma chunk_write_loop_log [simp]: "io_log (chunk_write_loop p chunks w) = io_log w"
  by (induction chunks arbitrary: w) simp_all

lemma download_chunk_result:
  "snd (download_chunk cfg get filepath t w)
     = (if segment_done get t then Some (part_path filepath (snd (snd t))) else None)"
  by (cases t) (simp add: download_chunk_def segment_done_def Let_def split: response.splits)

lemma download_chunk_files:
  "files (fst (download_chunk cfg get filepath t w)) q
     = (if q = part_path filepath (snd (snd t)) \<and> segment_body get t \<noteq> None
        then segment_body get t else files w q)"
proof (cases t)
  case (fields start_byte end_byte thread_id)
  show ?thesis
  proof (cases "get (Some (range_header start_byte end_byte))")
    case Refused
    with fields show ?thesis
      by (simp add: download_chunk_def segment_body_def Let_def)
  next
    case (Stream chunks ok)
    let ?p = "part_path filepath thread_id"
    let ?w2 = "open_file ?p ModeWB (log_io (HttpGet (Some (range_header start_byte end_byte))) w)"
    have f2: "files ?w2 ?p = Some []" by (simp add: files_open_file)
    have "files (chunk_write_loop ?p chunks ?w2) q
            = (if q = ?p then Some ([] @ concat chunks) else files ?w2 q)"
      by (rule chunk_write_loop_files[OF f2])
    with fields Stream show ?thesis
      by (simp add: download_chunk_def segment_body_def Let_def files_open_file)
  qed
qed

lemma download_chunk_sleeps:
  "sleeps_of (io_log (fst (download_chunk cfg get filepath t w))) = sleeps_of (io_log w)"
  by (cases t)
     (simp add: download_chunk_def Let_def sleeps_of_append split: response.splits)

lemma download_chunk_opens:
  "set (opens_of (io_log (fst (download_chunk cfg get filepath t w))))
     \<subseteq> set (opens_of (io_log w)) \<union> {(part_path filepath (snd (snd t)), ModeWB)}"
  by (cases t)
     (auto simp add: download_chunk_def Let_def opens_of_append split: response.splits)

section \<open>The worker pool\<close>

text \<open>The pool.\<close>

lemma run_workers_results:
  "snd (run_workers cfg get filepath ts (w, results))
     = results @ map (\<lambda>t. (snd (snd t),
                           if segment_done get t then Some (part_path filepath (snd (snd t)))
                           else None)) ts"
proof (induction ts arbitrary: w results)
  case Nil
  show ?case by simp
next
  case (Cons t ts)
  obtain w' r where d: "download_chunk cfg get filepath t w = (w', r)"
    by (cases "download_chunk cfg get filepath t w")
  then have r: "r = (if segment_done get t then Some (part_path filepath (snd (snd t))) else None)"
    using download_chunk_result[of cfg get filepath t w] by simp
  show ?case
    using Cons.IH[of w' "results @ [(snd (snd t), r)]"] d r by simp
qed

lemma run_workers_files_other:
  assumes "\<And>t. t \<in> set ts \<Longrightarrow> q \<noteq> part_path filepath (snd (snd t)) \<or> segment_body get t = None"
  shows "files (fst (run_workers cfg get filepath ts (w, results))) q = files w q"
  using assms
proof (induction ts arbitrary: w results)
  case Nil
  show ?case by simp
next
  case (Cons t ts)
  obtain w' r where d: "download_chunk cfg get filepath t w = (w', r)"
    by (cases "download_chunk cfg get filepath t w")
  have "files w' q = files w q"
    using download_chunk_files[of cfg get filepath t w q] d Cons.prems[of t] by auto
  moreover have "files (fst (run_workers cfg get filepath ts (w', results @ [(snd (snd t), r)]))) q
                   = files w' q"
    by (rule Cons.IH) (use Cons.prems in auto)
  ultimately show ?case using d by simp
qed

lemma run_workers_files_task:
  assumes "distinct (map (\<lambda>t. snd (snd t)) ts)" and "\<And>t. t \<in> set ts \<Longrightarrow> 0 \<le> snd (snd t)"
    and "t \<in> set ts"
  shows "files (fst (run_workers cfg get filepath ts (w, results)))
           (part_path filepath (snd (snd t)))
         = (if segment_body get t \<noteq> None then segment_body get t
            else files w (part_path filepath (snd (snd t))))"
  using assms
proof (induction ts arbitrary: w results)
  case Nil
  then show ?case by simp
next
  case (Cons t0 ts)
  let ?p = "part_path filepath (snd (snd t))"
  obtain w' r where d: "download_chunk cfg get filepath t0 w = (w', r)"
    by (cases "download_chunk cfg get filepath t0 w")
  have step: "files w' q = (if q = part_path filepath (snd (snd t0)) \<and> segment_body get t0 \<noteq> None
                            then segment_body get t0 else files w q)" for q
    using download_chunk_files[of cfg get filepath t0 w q] d by simp
  have run: "run_workers cfg get filepath (t0 # ts) (w, results)
               = run_workers cfg get filepath ts (w', results @ [(snd (snd t0), r)])"
    using d by simp
  show ?case
  proof (cases "t \<in> set ts")
    case True
    from Cons.prems(1) have "snd (snd t0) \<notin> (\<lambda>t. snd (snd t)) ` set ts" by simp
    with True have ne: "snd (snd t) \<noteq> snd (snd t0)" by (metis imageI)
    have "?p \<noteq> part_path filepath (snd (snd t0))"
      using part_path_inj[of "snd (snd t)" "snd (snd t0)" filepath] ne
        Cons.prems(2)[of t] Cons.prems(2)[of t0] True by auto
    then have "files w' ?p = files w ?p" by (simp add: step)
    moreover have "files (fst (run_workers cfg get filepath ts (w', results @ [(snd (snd t0), r)]))) ?p
            = (if segment_body get t \<noteq> None then segment_body get t else files w' ?p)"
      by (rule Cons.IH) (use Cons.prems True in auto)
    ultimately show ?thesis unfolding run by simp
  next
    case False
    with Cons.prems(3) have t: "t = t0" by simp
    have "files (fst (run_workers cfg get filepath ts (w', results @ [(snd (snd t0), r)]))) ?p
            = files w' ?p"
    proof (rule run_workers_files_other)
      fix u assume u: "u \<in> set ts"
      from Cons.prems(1) have "snd (snd t0) \<notin> (\<lambda>t. snd (snd t)) ` set ts" by simp
      with u t have "snd (snd u) \<noteq> snd (snd t)" by (metis imageI)
      then have "?p \<noteq> part_path filepath (snd (snd u))"
        using part_path_inj[of "snd (snd t)" "snd (snd u)" filepath]
          Cons.prems(2)[of t] Cons.prems(2)[of u] u Cons.prems(3) by auto
      then show "?p \<noteq> part_path filepath (snd (snd u)) \<or> segment_body get u = None" by simp
    qed
    then show ?thesis unfolding run using step[of ?p] t by simp
  qed
qed

lemma run_workers_sleeps:
  "sleeps_of (io_log (fst (run_workers cfg get filepath ts (w, results)))) = sleeps_of (io_log w)"
proof (induction ts arbitrary: w results)
  case Nil
  show ?case by simp
next
  case (Cons t ts)
  obtain w' r where d: "download_chunk cfg get filepath t w = (w', r)"
    by (cases "download_chunk cfg get filepath t w")
  then have "sleeps_of (io_log w') = sleeps_of (io_log w)"
    using download_chunk_sleeps[of cfg get filepath t w] by simp
  with Cons.IH[of w' "results @ [(snd (snd t), r)]"] d show ?case by simp
qed

lemma run_workers_opens:
  "set (opens_of (io_log (fst (run_workers cfg get filepath ts (w, results)))))
     \<subseteq> set (opens_of (io_log w)) \<union> (\<lambda>t. (part_path filepath (snd (snd t)), ModeWB)) ` set ts"
proof (induction ts arbitrary: w results)
  case Nil
  show ?case by simp
next
  case (Cons t ts)
  obtain w' r where d: "download_chunk cfg get filepath t w = (w', r)"
    by (cases "download_chunk cfg get filepath t w")
  then have "set (opens_of (io_log w'))
     \<subseteq> set (opens_of (io_log w)) \<union> {(part_path filepath (snd (snd t)), ModeWB)}"
    using download_chunk_opens[of cfg get filepath t w] by simp
  with Cons.IH[of w' "results @ [(snd (snd t), r)]"] d show ?case by auto
qed

text \<open>The results collected.\<close>

lemma map_of_keyed:
  assumes "distinct (map f xs)" "x \<in> set xs"
  shows "map_of (map (\<lambda>x. (f x, g x)) xs) (f x) = Some (g x)"
  using assms by (induction xs) (auto simp: rev_image_eqI)

lemma length_filter_all: "(length (filter P xs) = length xs) = (\<forall>x \<in> set xs. P x)"
proof (induction xs)
  case Nil
  show ?case by simp
next
  case (Cons x xs)
  have "length (filter P xs) \<noteq> Suc (length xs)"
    using length_filter_le[of P xs] by linarith
  with Cons show ?case by auto
qed

lemma collect_temp_files_length:
  assumes "distinct (map (\<lambda>t. snd (snd t)) ts)" and "set tasks \<subseteq> set ts"
  shows "length (collect_temp_files tasks
           (map (\<lambda>t. (snd (snd t),
                       if segment_done get t then Some (part_path filepath (snd (snd t)))
                       else None)) ts))
         = length (filter (segment_done get) tasks)"
proof -
  let ?res = "map (\<lambda>t. (snd (snd t),
                       if segment_done get t then Some (part_path filepath (snd (snd t)))
                       else None)) ts"
  have look: "map_of ?res (snd (snd t))
                = Some (if segment_done get t then Some (part_path filepath (snd (snd t))) else None)"
    if "t \<in> set tasks" for t
    using map_of_keyed[OF assms(1), of t "\<lambda>t. if segment_done get t
        then Some (part_path filepath (snd (snd t))) else None"] that assms(2) by auto
  have "collect_temp_files tasks ?res
          = concat (map (\<lambda>t. if segment_done get t then [part_path filepath (snd (snd t))] else [])
                        tasks)"
    unfolding collect_temp_files_def
    by (rule arg_cong[where f = concat], rule map_cong) (simp_all add: look)
  also have "length \<dots> = length (filter (segment_done get) tasks)"
    by (induction tasks) simp_all
  finally show ?thesis .
qed

section \<open>Cleanup and reassembly\<close>

text \<open>The removal of the sinks.\<close>

lemma cleanup_loop_files:
  "files (cleanup_loop filepath ids w) q
     = (if q \<in> part_path filepath ` set ids then None else files w q)"
proof (induction ids arbitrary: w)
  case Nil
  show ?case by simp
next
  case (Cons i ids)
  show ?case
  proof (cases "exists_file w (part_path filepath i)")
    case True
    then show ?thesis
      by (simp add: Cons.IH files_remove_file)
  next
    case False
    then have "files w (part_path filepath i) = None" by (simp add: exists_file_def)
    with False show ?thesis
      by (auto simp add: Cons.IH)
  qed
qed

lemma cleanup_loop_log [simp]: "io_log (cleanup_loop filepath ids w) = io_log w"
  by (induction ids arbitrary: w) (simp_all add: Let_def)

text \<open>The reassembly.\<close>

lemma combine_loop_files:
  assumes "distinct ids" and "\<And>i. i \<in> set ids \<Longrightarrow> 0 \<le> i"
    and "files w filepath = Some out"
  shows "files (combine_loop filepath ids w) q
     = (if q = filepath
        then Some (out @ concat (map (\<lambda>i. case files w (part_path filepath i) of
                                            None \<Rightarrow> [] | Some d \<Rightarrow> d) ids))
        else if q \<in> part_path filepath ` set ids then None else files w q)"
  using assms
proof (induction ids arbitrary: w out)
  case Nil
  then show ?case by simp
next
  case (Cons i ids)
  let ?p = "part_path filepath i"
  let ?sink = "\<lambda>w j. case files w (part_path filepath j) of None \<Rightarrow> [] | Some d \<Rightarrow> d"
  have pne: "?p \<noteq> filepath" by (rule part_path_not_filepath)
  have others: "part_path filepath j \<noteq> ?p" if "j \<in> set ids" for j
    using part_path_inj[of j i filepath] that Cons.prems(1) Cons.prems(2)[of j] Cons.prems(2)[of i]
    by auto
  show ?case
  proof (cases "exists_file w ?p")
    case False
    then have none: "files w ?p = None" by (simp add: exists_file_def)
    have "files (combine_loop filepath ids w) q
            = (if q = filepath then Some (out @ concat (map (?sink w) ids))
               else if q \<in> part_path filepath ` set ids then None else files w q)"
      by (rule Cons.IH) (use Cons.prems in auto)
    with False none show ?thesis by auto
  next
    case True
    then obtain d where d: "files w ?p = Some d" by (auto simp: exists_file_def)
    define w3 where "w3 = remove_file ?p (write_file filepath d (open_file ?p ModeRB w))"
    have step: "combine_loop filepath (i # ids) w = combine_loop filepath ids w3"
      using True d by (simp add: w3_def Let_def files_open_file)
    have f3: "files w3 r = (if r = ?p then None
                            else if r = filepath then Some (out @ d) else files w r)" for r
      using Cons.prems(3) pne
      by (simp add: w3_def files_remove_file files_write_file files_open_file)
    have out3: "files w3 filepath = Some (out @ d)"
      using pne by (simp add: f3)
    have same: "map (?sink w3) ids = map (?sink w) ids"
    proof (rule map_cong[OF refl])
      fix j assume "j \<in> set ids"
      then have "files w3 (part_path filepath j) = files w (part_path filepath j)"
        using others[of j] part_path_not_filepath[of filepath j] by (simp add: f3)
      then show "?sink w3 j = ?sink w j" by simp
    qed
    have "files (combine_loop filepath ids w3) q
            = (if q = filepath then Some ((out @ d) @ concat (map (?sink w3) ids))
               else if q \<in> part_path filepath ` set ids then None else files w3 q)"
      by (rule Cons.IH[OF _ _ out3]) (use Cons.prems in auto)
    then show ?thesis
      unfolding step same using d pne by (auto simp: f3)
  qed
qed

lemma combine_loop_sleeps:
  "sleeps_of (io_log (combine_loop filepath ids w)) = sleeps_of (io_log w)"
  by (induction ids arbitrary: w) (simp_all add: Let_def sleeps_of_append)

lemma combine_chunks_files:
  shows "files (combine_chunks filepath n w) q
     = (if q = filepath
        then Some (concat (map (\<lambda>i. case files w (part_path filepath i) of
                                     None \<Rightarrow> [] | Some d \<Rightarrow> d) [0..n - 1]))
        else if q \<in> part_path filepath ` {0..n - 1} then None else files w q)"
proof -
  let ?w1 = "open_file filepath ModeWB w"
  have f1: "files ?w1 r = (if r = filepath then Some [] else files w r)" for r
    by (simp add: files_open_file)
  have same: "map (\<lambda>i. case files ?w1 (part_path filepath i) of None \<Rightarrow> [] | Some d \<Rightarrow> d) [0..n - 1]
            = map (\<lambda>i. case files w (part_path filepath i) of None \<Rightarrow> [] | Some d \<Rightarrow> d) [0..n - 1]"
    by (rule map_cong[OF refl]) (simp add: f1 part_path_not_filepath)
  have "files (combine_loop filepath [0..n - 1] ?w1) q
     = (if q = filepath
        then Some ([] @ concat (map (\<lambda>i. case files ?w1 (part_path filepath i) of
                                     None \<Rightarrow> [] | Some d \<Rightarrow> d) [0..n - 1]))
        else if q \<in> part_path filepath ` set [0..n - 1] then None else files ?w1 q)"
    by (rule combine_loop_files) (simp_all add: f1)
  then show ?thesis
    unfolding combine_chunks_def same by (simp add: f1)
qed

lemma cleanup_chunks_files:
  "files (cleanup_chunks filepath n w) q
     = (if q \<in> part_path filepath ` {0..n - 1} then None else files w q)"
  by (simp add: cleanup_chunks_def cleanup_loop_files)

section \<open>The resource cut along the plan\<close>

text \<open>The ranges of the planned tasks, cut out of a resource, give the resource back.\<close>

lemma upto_as_upt: "[0..int m - 1] = map int [0..<m]"
proof (induction m)
  case 0
  show ?case by simp
next
  case (Suc m)
  have "[0..int (Suc m) - 1] = [0..int m - 1] @ [int m]"
    using upto_rec2[of 0 "int m"] by simp
  with Suc show ?case by simp
qed

lemma concat_equal_chunks:
  "concat (map (\<lambda>i. take c (drop (i * c) xs)) [0..<m]) = take (m * c) xs"
proof (induction m)
  case 0
  show ?case by simp
next
  case (Suc m)
  have "take (m * c) xs @ take c (drop (m * c) xs) = take (m * c + c) xs"
    by (simp add: take_add)
  with Suc show ?case by (simp add: add.commute)
qed

lemma resource_tiles:
  assumes "1 \<le> n" and "int (length res) = fsize"
  shows "concat (map (\<lambda>t. resource_range res (fst t) (fst (snd t)))
                     (download_tasks fsize n (fsize div n))) = res"
proof -
  define c where "c = nat (fsize div n)"
  define m where "m = nat (n - 1)"
  from assms have fs: "0 \<le> fsize" by auto
  with assms have cdef: "fsize div n = int c"
    by (simp add: c_def pos_imp_zdiv_nonneg_iff)
  from assms have n: "n = int m + 1" by (simp add: m_def)
  have le: "int m * int c \<le> fsize"
  proof -
    have "fsize div n * n \<le> fsize"
      using div_mult_mod_eq[of fsize n] pos_mod_sign[of n fsize] assms(1) by linarith
    then have "n * int c \<le> fsize" by (simp add: cdef mult.commute)
    moreover have "int m * int c \<le> n * int c" unfolding n by (simp add: algebra_simps)
    ultimately show ?thesis by linarith
  qed
  have split: "[0..n - 1] = [0..int m - 1] @ [int m]"
    unfolding n using upto_rec2[of 0 "int m"] by simp
  let ?f = "\<lambda>i. resource_range res (i * int c)
                   (if i < n - 1 then i * int c + int c - 1 else fsize - 1)"
  have tasks: "map (\<lambda>t. resource_range res (fst t) (fst (snd t)))
                   (download_tasks fsize n (fsize div n)) = map ?f [0..n - 1]"
    by (simp add: download_tasks_def Let_def comp_def cdef)
  have inner: "map ?f [0..int m - 1] = map (\<lambda>i. take c (drop (i * c) res)) [0..<m]"
    unfolding upto_as_upt
    by (simp add: comp_def resource_range_def n nat_mult_distrib)
  have last: "?f (int m) = drop (m * c) res"
  proof -
    have "nat (fsize - 1 - int m * int c + 1) = length res - m * c"
      using assms(2) le by (simp add: nat_diff_distrib' flip: of_nat_mult)
    then show ?thesis
      by (simp add: resource_range_def n nat_mult_distrib)
  qed
  have "concat (map ?f [0..n - 1])
          = concat (map (\<lambda>i. take c (drop (i * c) res)) [0..<m]) @ drop (m * c) res"
    unfolding split using inner last by simp
  also have "\<dots> = res"
    by (simp add: concat_equal_chunks)
  finally show ?thesis using tasks by simp
qed

text \<open>The tasks have distinct, non-negative thread ids.\<close>

lemma download_tasks_distinct_ids:
  "distinct (map (\<lambda>t. snd (snd t)) (download_tasks fsize n c))"
  by (simp add: download_tasks_ids)

lemma download_tasks_ids_nonneg:
  "t \<in> set (download_tasks fsize n c) \<Longrightarrow> 0 \<le> snd (snd t)"
  by (auto simp: download_tasks_set)

lemma download_tasks_part_paths:
  "(\<lambda>t. part_path filepath (snd (snd t))) ` set (download_tasks fsize n c)
     = part_path filepath ` {0..n - 1}"
proof -
  have "(\<lambda>t. snd (snd t)) ` set (download_tasks fsize n c) = {0..n - 1}"
    using download_tasks_ids[of fsize n c] by (metis set_map set_upto)
  then show ?thesis by (metis image_image)
qed

text \<open>The waiting loop of the main thread only sleeps.\<close>

lemma files_poll_loop [simp]: "files (poll_loop k w) = files w"
  by (induction k arbitrary: w) simp_all

lemma opens_of_poll_loop [simp]: "opens_of (io_log (poll_loop k w)) = opens_of (io_log w)"
  by (induction k arbitrary: w) (simp_all add: opens_of_append)

lemma requests_of_poll_loop [simp]:
  "requests_of (io_log (poll_loop k w)) = requests_of (io_log w)"
  by (induction k arbitrary: w) (simp_all add: requests_of_append)

lemma sleeps_of_poll_loop:
  "sleeps_of (io_log (poll_loop k w)) = sleeps_of (io_log w) @ replicate k (1 / 10)"
proof (induction k arbitrary: w)
  case 0
  show ?case by simp
next
  case (Suc k)
  have "replicate (Suc k) (1 / 10 :: real) = [1 / 10] @ replicate k (1 / 10)" by simp
  with Suc show ?case by (simp add: sleeps_of_append del: replicate_Suc)
qed

text \<open>The multi-segment download, for a configuration with at least one thread.\<close>

lemma threaded_download_run:
  assumes "1 \<le> max_threads cfg" and "\<And>ts. mset (sched ts) = mset ts"
  shows "threaded_download_advanced cfg get sched polls filepath finfo w =
     (if \<forall>t \<in> set (download_tasks (file_size finfo) (min (max_threads cfg) 16)
                       (file_size finfo div min (max_threads cfg) 16)). segment_done get t
      then (combine_chunks filepath (min (max_threads cfg) 16)
              (poll_loop polls (fst (run_workers cfg get filepath
                     (sched (download_tasks (file_size finfo) (min (max_threads cfg) 16)
                               (file_size finfo div min (max_threads cfg) 16))) (w, [])))),
            Inr True)
      else (cleanup_chunks filepath (min (max_threads cfg) 16)
              (poll_loop polls (fst (run_workers cfg get filepath
                     (sched (download_tasks (file_size finfo) (min (max_threads cfg) 16)
                               (file_size finfo div min (max_threads cfg) 16))) (w, [])))),
            Inr False))"
proof -
  define n where "n = min (max_threads cfg) 16"
  define tasks where "tasks = download_tasks (file_size finfo) n (file_size finfo div n)"
  define st where "st = run_workers cfg get filepath (sched tasks) (w, [])"
  from assms(1) have n1: "1 \<le> n" by (simp add: n_def)
  have perm: "mset (sched tasks) = mset tasks" by (rule assms(2))
  have dist: "distinct (map (\<lambda>t. snd (snd t)) (sched tasks))"
  proof -
    have "mset (map (\<lambda>t. snd (snd t)) (sched tasks)) = mset (map (\<lambda>t. snd (snd t)) tasks)"
      using perm by (metis mset_map)
    then show ?thesis
      using download_tasks_distinct_ids[of "file_size finfo" n "file_size finfo div n"]
      unfolding tasks_def by (metis mset_eq_imp_distinct_iff)
  qed
  have sub: "set tasks \<subseteq> set (sched tasks)"
    using perm by (metis mset_eq_setD subset_refl)
  have res: "snd st = map (\<lambda>t. (snd (snd t),
                           if segment_done get t then Some (part_path filepath (snd (snd t)))
                           else None)) (sched tasks)"
    unfolding st_def using run_workers_results[of cfg get filepath "sched tasks" w "[]"] by simp
  have len: "length (collect_temp_files tasks (snd st)) = length (filter (segment_done get) tasks)"
    unfolding res by (rule collect_temp_files_length[OF dist sub])
  have ntasks: "length tasks = nat n"
    by (simp add: tasks_def download_tasks_length)
  have iff: "(int (length (collect_temp_files tasks (snd st))) = n)
               = (\<forall>t \<in> set tasks. segment_done get t)"
  proof -
    have "n = int (length tasks)" using n1 ntasks by simp
    then have "(int (length (collect_temp_files tasks (snd st))) = n)
                 = (length (filter (segment_done get) tasks) = length tasks)"
      unfolding len by simp
    then show ?thesis unfolding length_filter_all .
  qed
  have "threaded_download_advanced cfg get sched polls filepath finfo w =
     (if int (length (collect_temp_files tasks (snd st))) = n
      then (combine_chunks filepath n (poll_loop polls (fst st)), Inr True)
      else (cleanup_chunks filepath n (poll_loop polls (fst st)), Inr False))"
    unfolding threaded_download_advanced_def Let_def
    unfolding n_def[symmetric] st_def tasks_def
    using n1 by (simp add: py_floordiv_def case_prod_beta)
  then show ?thesis
    unfolding iff unfolding st_def tasks_def n_def by simp
qed

section \<open>The multi-segment download\<close>

lemma combine_chunks_sleeps:
  "sleeps_of (io_log (combine_chunks filepath n w)) = sleeps_of (io_log w)"
  by (simp add: combine_chunks_def combine_loop_sleeps sleeps_of_append)

lemma cleanup_chunks_log [simp]: "io_log (cleanup_chunks filepath n w) = io_log w"
  by (simp add: cleanup_chunks_def)

lemma combine_loop_opens:
  "set (opens_of (io_log (combine_loop filepath ids w)))
     \<subseteq> set (opens_of (io_log w)) \<union> (\<lambda>i. (part_path filepath i, ModeRB)) ` set ids"
proof (induction ids arbitrary: w)
  case Nil
  show ?case by simp
next
  case (Cons i ids)
  show ?case
  proof (cases "exists_file w (part_path filepath i)")
    case True
    let ?w3 = "remove_file (part_path filepath i)
                 (write_file filepath
                    (case files (open_file (part_path filepath i) ModeRB w) (part_path filepath i) of
                       None \<Rightarrow> [] | Some d \<Rightarrow> d)
                    (open_file (part_path filepath i) ModeRB w))"
    have "set (opens_of (io_log ?w3)) \<subseteq> set (opens_of (io_log w)) \<union> {(part_path filepath i, ModeRB)}"
      by (simp add: opens_of_append)
    with Cons.IH[of ?w3] True show ?thesis by (auto simp: Let_def)
  next
    case False
    with Cons.IH[of w] show ?thesis by auto
  qed
qed

lemma positive_max_threads_clamped:
  assumes "1 \<le> max_threads cfg"
  shows "1 \<le> min (max_threads cfg) 16" and "min (max_threads cfg) 16 \<le> max_threads cfg"
    and "py_floordiv fsize (min (max_threads cfg) 16) = Inr (fsize div min (max_threads cfg) 16)"
  using assms by (simp_all add: py_floordiv_def)

lemma filepath_not_a_part: "filepath \<notin> part_path filepath ` S"
  using part_path_not_filepath[of filepath] by (metis imageE)

lemma combine_chunks_restores_resource:
  assumes "1 \<le> n" and "int (length res) = fsize"
    and "\<And>t. t \<in> set (download_tasks fsize n (fsize div n)) \<Longrightarrow>
           files w1 (part_path filepath (snd (snd t)))
             = Some (resource_range res (fst t) (fst (snd t)))"
  shows "files (combine_chunks filepath n w1) filepath = Some res"
proof -
  let ?tasks = "download_tasks fsize n (fsize div n)"
  let ?sink = "\<lambda>i. case files w1 (part_path filepath i) of None \<Rightarrow> [] | Some d \<Rightarrow> d"
  have "map ?sink [0..n - 1] = map ?sink (map (\<lambda>t. snd (snd t)) ?tasks)"
    by (simp only: download_tasks_ids)
  also have "\<dots> = map (\<lambda>t. ?sink (snd (snd t))) ?tasks"
    by (simp only: map_map comp_def)
  also have "\<dots> = map (\<lambda>t. resource_range res (fst t) (fst (snd t))) ?tasks"
    by (rule map_cong[OF refl]) (simp add: assms(3))
  finally have "concat (map ?sink [0..n - 1]) = res"
    using resource_tiles[OF assms(1,2)] by simp
  then show ?thesis by (simp add: combine_chunks_files)
qed

text \<open>
  When the server answers each task's request with the bytes of its range, the pool leaves
  exactly these bytes in the task's sink, whatever the order of completion.
\<close>

lemma honest_server_fills_sinks:
  assumes "\<And>ts. mset (sched ts) = mset ts"
    and "t \<in> set (download_tasks fsize n c)"
    and "segment_body get t = Some (resource_range res (fst t) (fst (snd t)))"
  shows "files (fst (run_workers cfg get filepath (sched (download_tasks fsize n c)) (w, [])))
           (part_path filepath (snd (snd t)))
         = Some (resource_range res (fst t) (fst (snd t)))"
proof -
  let ?tasks = "download_tasks fsize n c"
  have perm: "mset (sched ?tasks) = mset ?tasks" by (rule assms(1))
  have "mset (map (\<lambda>t. snd (snd t)) (sched ?tasks)) = mset (map (\<lambda>t. snd (snd t)) ?tasks)"
    using perm by (metis mset_map)
  then have dist: "distinct (map (\<lambda>t. snd (snd t)) (sched ?tasks))"
    using download_tasks_distinct_ids[of fsize n c] by (metis mset_eq_imp_distinct_iff)
  have same: "set (sched ?tasks) = set ?tasks"
    using perm by (rule mset_eq_setD)
  have nonneg: "0 \<le> snd (snd u)" if "u \<in> set (sched ?tasks)" for u
    using that same download_tasks_ids_nonneg[of u fsize n c] by simp
  have "t \<in> set (sched ?tasks)" using assms(2) same by simp
  from run_workers_files_task[OF dist nonneg this, of cfg get filepath w "[]"] assms(3)
  show ?thesis by simp
qed

lemmas threaded_eval =
  threaded_download_advanced_def py_floordiv_def download_tasks_def poll_loop.simps
  numeral_2_eq_2
  download_chunk_def range_header_def part_path_def collect_temp_files_def
  combine_chunks_def cleanup_chunks_def remove_file_def simple_eval
  three_threads_def ten_bytes_def good_server_def failing_server_def world_of_def

lemma three_tasks:
  "download_tasks (file_size ten_bytes) (min (max_threads three_threads) 16)
     (file_size ten_bytes div min (max_threads three_threads) 16)
     = [(0, 2, 0), (3, 5, 1), (6, 9, 2)]"
  by (simp add: download_tasks_def three_threads_def ten_bytes_def DEFAULT_CONFIG_def Let_def
      upto.simps)

lemma three_threads_min: "min (max_threads three_threads) 16 = 3"
  by (simp add: three_threads_def DEFAULT_CONFIG_def)

lemma part_names:
  "part_path ''f'' 0 = ''f.part0''" "part_path ''f'' 1 = ''f.part1''"
  "part_path ''f'' 2 = ''f.part2''"
  by (simp_all add: part_path_def str_eval)

lemmas worker_eval =
  download_chunk_def range_header_def good_server_def failing_server_def table_server_def
  part_path_def str_eval Let_def open_file_def log_io_def write_file_def fresh_world_def
  resource_range_def

text \<open>
  Claim C2. Let the pool complete the tasks in any order. If the worker of some planned
  task returns no sink (the request is refused or the stream breaks), then the
  multi-segment download returns \<^verbatim>\<open>False\<close>, the destination file is as it was before
  the call and is never opened, and no sink \<^verbatim>\<open>filepath.part{i}\<close>, for any index \<open>i\<close>
  below the number of threads, exists afterwards.
\<close>

theorem failed_segment_voids_download:
  assumes "\<And>ts. mset (sched ts) = mset ts"
    and "t \<in> set (download_tasks (file_size finfo) (min (max_threads cfg) 16)
                     (file_size finfo div min (max_threads cfg) 16))"
    and "snd (download_chunk cfg get filepath t w0) = None"
  shows "case threaded_download_advanced cfg get sched polls filepath finfo w of (w', r) \<Rightarrow>
           r = Inr False
         \<and> files w' filepath = files w filepath
         \<and> (\<forall>i \<in> {0..min (max_threads cfg) 16 - 1}. files w' (part_path filepath i) = None)
         \<and> (\<forall>m. (filepath, m) \<in> set (opens_of (io_log w')) \<longrightarrow>
                  (filepath, m) \<in> set (opens_of (io_log w)))"
proof -
  define n where "n = min (max_threads cfg) 16"
  define tasks where "tasks = download_tasks (file_size finfo) n (file_size finfo div n)"
  define w1 where "w1 = poll_loop polls (fst (run_workers cfg get filepath (sched tasks) (w, [])))"
  from assms(2) have "length tasks \<noteq> 0"
    unfolding tasks_def n_def by (metis length_0_conv empty_iff empty_set)
  then have "1 \<le> n" by (simp add: tasks_def download_tasks_length)
  then have threads: "1 \<le> max_threads cfg" by (simp add: n_def)
  from assms(3) have "\<not> segment_done get t"
    by (simp add: download_chunk_result split: if_splits)
  with assms(2) have "\<not> (\<forall>t \<in> set tasks. segment_done get t)"
    unfolding tasks_def n_def by blast
  then have run: "threaded_download_advanced cfg get sched polls filepath finfo w
                    = (cleanup_chunks filepath n w1, Inr False)"
    using threaded_download_run[OF threads assms(1), of get polls filepath finfo w]
    unfolding w1_def tasks_def n_def by simp
  have dest1: "files w1 filepath = files w filepath"
    unfolding w1_def files_poll_loop
    by (rule run_workers_files_other) (simp add: part_path_not_filepath[symmetric])
  have dest: "files (cleanup_chunks filepath n w1) filepath = files w filepath"
    using dest1 by (simp add: cleanup_chunks_files filepath_not_a_part)
  have parts: "files (cleanup_chunks filepath n w1) (part_path filepath i) = None"
    if "i \<in> {0..n - 1}" for i
    using that by (simp add: cleanup_chunks_files)
  have opens: "(filepath, m) \<in> set (opens_of (io_log w))"
    if "(filepath, m) \<in> set (opens_of (io_log (cleanup_chunks filepath n w1)))" for m
  proof -
    from that have "(filepath, m) \<in> set (opens_of (io_log w1))" by simp
    then have "(filepath, m) \<in> set (opens_of (io_log w))
                 \<union> (\<lambda>t. (part_path filepath (snd (snd t)), ModeWB)) ` set (sched tasks)"
      unfolding w1_def opens_of_poll_loop
      using run_workers_opens[of cfg get filepath "sched tasks" w "[]"] by blast
    then show ?thesis using part_path_not_filepath[of filepath, THEN not_sym] by auto
  qed
  show ?thesis
    unfolding n_def[symmetric] run prod.case
  proof (intro conjI ballI allI impI)
    show "Inr False = Inr False" ..
    show "files (cleanup_chunks filepath n w1) filepath = files w filepath" by (rule dest)
    show "files (cleanup_chunks filepath n w1) (part_path filepath i) = None"
      if "i \<in> {0..n - 1}" for i using that by (rule parts)
    show "(filepath, m) \<in> set (opens_of (io_log w))"
      if "(filepath, m) \<in> set (opens_of (io_log (cleanup_chunks filepath n w1)))" for m
      using that by (rule opens)
  qed
qed

theorem failed_segment_voids_download_witness:
  "1 \<le> max_threads three_threads
   \<and> (3, 5, 1) \<in> set (download_tasks (file_size ten_bytes) (min (max_threads three_threads) 16)
                         (file_size ten_bytes div min (max_threads three_threads) 16))
   \<and> snd (download_chunk three_threads failing_server ''f'' (3, 5, 1) fresh_world) = None
   \<and> files (fst (download_chunk three_threads failing_server ''f'' (3, 5, 1) fresh_world))
        ''f.part1'' = Some ''3''
   \<and> snd (threaded_download_advanced three_threads failing_server rev 2 ''f'' ten_bytes
             fresh_world) = Inr False
   \<and> files (fst (threaded_download_advanced three_threads failing_server rev 2 ''f'' ten_bytes
                    fresh_world)) ''f'' = None
   \<and> files (fst (threaded_download_advanced three_threads failing_server rev 2 ''f'' ten_bytes
                    fresh_world)) ''f.part0'' = None
   \<and> files (fst (threaded_download_advanced three_threads failing_server rev 2 ''f'' ten_bytes
                    fresh_world)) ''f.part1'' = None
   \<and> files (fst (threaded_download_advanced three_threads failing_server rev 2 ''f'' ten_bytes
                    fresh_world)) ''f.part2'' = None"
proof -
  have h1: "1 \<le> max_threads three_threads"
    by (simp add: three_threads_def DEFAULT_CONFIG_def)
  have h2: "mset (rev ts) = mset ts" for ts :: "task list" by simp
  have h3: "(3, 5, 1) \<in> set (download_tasks (file_size ten_bytes)
                (min (max_threads three_threads) 16)
                (file_size ten_bytes div min (max_threads three_threads) 16))"
    unfolding three_tasks by simp
  have h4: "snd (download_chunk three_threads failing_server ''f'' (3, 5, 1) fresh_world) = None"
    by (simp add: download_chunk_def range_header_def failing_server_def table_server_def
        str_eval Let_def)
  have sink: "files (fst (download_chunk three_threads failing_server ''f'' (3, 5, 1) fresh_world))
        ''f.part1'' = Some ''3''"
    by (simp add: download_chunk_def range_header_def failing_server_def table_server_def
        part_path_def str_eval Let_def open_file_def log_io_def write_file_def fresh_world_def)
  have f0: "files fresh_world ''f'' = None" by (simp add: fresh_world_def)
  note t = failed_segment_voids_download[OF h2 h3 h4, where w = fresh_world and polls = 2]
  obtain w' r where run: "threaded_download_advanced three_threads failing_server rev 2 ''f''
                            ten_bytes fresh_world = (w', r)"
    by (cases "threaded_download_advanced three_threads failing_server rev 2 ''f'' ten_bytes
                 fresh_world")
  from t have r: "r = Inr False" and d: "files w' ''f'' = files fresh_world ''f''"
    and p: "\<forall>i \<in> {0..3 - 1}. files w' (part_path ''f'' i) = None"
    unfolding run prod.case three_threads_min by blast+
  from p have "files w' (part_path ''f'' 0) = None" "files w' (part_path ''f'' 1) = None"
    "files w' (part_path ''f'' 2) = None"
    by simp_all
  then have "files w' ''f.part0'' = None" "files w' ''f.part1'' = None"
    "files w' ''f.part2'' = None"
    unfolding part_names by simp_all
  with h1 h3 h4 sink r d f0 show ?thesis unfolding run by simp
qed

text \<open>
  Claim C3. Let the configuration have at least one thread, let \<open>res\<close> be a resource of the
  probed size and let the pool complete the tasks in any order \<open>sched\<close>. If every worker
  returns its sink and, after the pool has run, the sink of each task holds exactly the
  bytes of \<open>res\<close> in the task's range, then the multi-segment download returns
  \<^verbatim>\<open>True\<close>, the destination holds exactly \<open>res\<close>, every sink is deleted, and the
  destination is byte-identical to what a single-stream download of \<open>res\<close> into a fresh
  file writes.
\<close>

theorem reassembly_restores_resource:
  assumes "1 \<le> max_threads cfg" and "\<And>ts. mset (sched ts) = mset ts"
    and "int (length res) = file_size finfo"
    and "\<And>t. t \<in> set (download_tasks (file_size finfo) (min (max_threads cfg) 16)
                        (file_size finfo div min (max_threads cfg) 16)) \<Longrightarrow>
           snd (download_chunk cfg get filepath t w0) \<noteq> None
         \<and> files (fst (run_workers cfg get filepath
                    (sched (download_tasks (file_size finfo) (min (max_threads cfg) 16)
                              (file_size finfo div min (max_threads cfg) 16))) (w, [])))
              (part_path filepath (snd (snd t)))
             = Some (resource_range res (fst t) (fst (snd t)))"
  shows "case threaded_download_advanced cfg get sched polls filepath finfo w of (w', r) \<Rightarrow>
           r = Inr True
         \<and> files w' filepath = Some res
         \<and> (\<forall>i \<in> {0..min (max_threads cfg) 16 - 1}. files w' (part_path filepath i) = None)
         \<and> (\<forall>chunks clock ws. files ws filepath = None \<and> get None = Stream chunks True
                \<and> concat chunks = res \<longrightarrow>
                files (fst (simple_download_advanced cfg get clock filepath finfo ws)) filepath
                  = files w' filepath)"
proof -
  define n where "n = min (max_threads cfg) 16"
  define tasks where "tasks = download_tasks (file_size finfo) n (file_size finfo div n)"
  define w1 where "w1 = fst (run_workers cfg get filepath (sched tasks) (w, []))"
  from assms(1) have n1: "1 \<le> n" by (simp add: n_def)
  have fin: "segment_done get t" if "t \<in> set tasks" for t
    using assms(4)[of t] that unfolding tasks_def n_def
    by (simp add: download_chunk_result split: if_splits)
  have sinks: "files w1 (part_path filepath (snd (snd t)))
                 = Some (resource_range res (fst t) (fst (snd t)))" if "t \<in> set tasks" for t
    using assms(4)[of t] that unfolding tasks_def n_def w1_def by simp
  define w2 where "w2 = poll_loop polls w1"
  have sinks2: "files w2 (part_path filepath (snd (snd t)))
                 = Some (resource_range res (fst t) (fst (snd t)))" if "t \<in> set tasks" for t
    using sinks[OF that] by (simp add: w2_def)
  have run: "threaded_download_advanced cfg get sched polls filepath finfo w
               = (combine_chunks filepath n w2, Inr True)"
    using threaded_download_run[OF assms(1,2), of get polls filepath finfo w] fin
    unfolding w2_def w1_def tasks_def n_def by simp
  have dest: "files (combine_chunks filepath n w2) filepath = Some res"
    by (rule combine_chunks_restores_resource[OF n1 assms(3)]) (use sinks2 tasks_def in simp)
  have parts: "files (combine_chunks filepath n w2) (part_path filepath i) = None"
    if "i \<in> {0..n - 1}" for i
    using that part_path_not_filepath[of filepath i] by (simp add: combine_chunks_files)
  have single: "files (fst (simple_download_advanced cfg get clock filepath finfo ws)) filepath
                  = Some res"
    if "files ws filepath = None" "get None = Stream chunks True" "concat chunks = res"
    for chunks clock ws
  proof -
    define w2 where "w2 = open_file filepath ModeWB (log_io (HttpGet None) ws)"
    have "simple_download_advanced cfg get clock filepath finfo ws
            = (fst (simple_write_loop cfg clock filepath chunks (w2, clock 0, 1)), Inr True)"
      unfolding w2_def
      using simple_download_fresh[of ws filepath cfg finfo get chunks True clock] that
      by (simp add: exists_file_def)
    moreover have "files w2 filepath = Some []" by (simp add: w2_def files_open_file)
    ultimately show ?thesis
      using simple_write_loop_files[of w2 filepath "[]" cfg clock chunks "clock 0" 1 filepath] that(3)
      by simp
  qed
  show ?thesis
    unfolding n_def[symmetric] run prod.case
  proof (intro conjI ballI allI impI)
    show "Inr True = Inr True" ..
    show "files (combine_chunks filepath n w2) filepath = Some res" by (rule dest)
    show "files (combine_chunks filepath n w2) (part_path filepath i) = None"
      if "i \<in> {0..n - 1}" for i using that by (rule parts)
    show "files (fst (simple_download_advanced cfg get clock filepath finfo ws)) filepath
            = files (combine_chunks filepath n w2) filepath"
      if "files ws filepath = None \<and> get None = Stream chunks True \<and> concat chunks = res"
      for chunks clock ws
      using that single[of ws chunks clock] dest by simp
  qed
qed

theorem reassembly_restores_resource_witness:
  "1 \<le> max_threads three_threads
   \<and> int (length ''0123456789'') = file_size ten_bytes
   \<and> download_tasks (file_size ten_bytes) (min (max_threads three_threads) 16)
         (file_size ten_bytes div min (max_threads three_threads) 16)
       = [(0, 2, 0), (3, 5, 1), (6, 9, 2)]
   \<and> files (fst (run_workers three_threads good_server ''f''
                    (rev [(0, 2, 0), (3, 5, 1), (6, 9, 2)]) (fresh_world, []))) ''f.part1''
       = Some ''345''
   \<and> snd (threaded_download_advanced three_threads good_server rev 2 ''f'' ten_bytes fresh_world)
       = Inr True
   \<and> files (fst (threaded_download_advanced three_threads good_server rev 2 ''f'' ten_bytes
                    fresh_world)) ''f'' = Some ''0123456789''
   \<and> files (fst (threaded_download_advanced three_threads good_server rev 2 ''f'' ten_bytes
                    fresh_world)) ''f.part0'' = None
   \<and> files (fst (threaded_download_advanced three_threads good_server rev 2 ''f'' ten_bytes
                    fresh_world)) ''f.part1'' = None
   \<and> files (fst (threaded_download_advanced three_threads good_server rev 2 ''f'' ten_bytes
                    fresh_world)) ''f.part2'' = None
   \<and> files (fst (simple_download_advanced three_threads good_server (\<lambda>k. 0) ''f'' ten_bytes
                    fresh_world)) ''f''
       = files (fst (threaded_download_advanced three_threads good_server rev 2 ''f'' ten_bytes
                    fresh_world)) ''f''"
proof -
  let ?res = "''0123456789''"
  have h1: "1 \<le> max_threads three_threads"
    by (simp add: three_threads_def DEFAULT_CONFIG_def)
  have h2: "mset (rev ts) = mset ts" for ts :: "task list" by simp
  have h3: "int (length ?res) = file_size ten_bytes" by (simp add: ten_bytes_def)
  have results: "snd (download_chunk three_threads good_server ''f'' (0, 2, 0) fresh_world) \<noteq> None"
    "snd (download_chunk three_threads good_server ''f'' (3, 5, 1) fresh_world) \<noteq> None"
    "snd (download_chunk three_threads good_server ''f'' (6, 9, 2) fresh_world) \<noteq> None"
    by (simp_all add: worker_eval)
  let ?w1 = "fst (run_workers three_threads good_server ''f''
                    (rev [(0, 2, 0), (3, 5, 1), (6, 9, 2)]) (fresh_world, []))"
  have sinks: "files ?w1 (part_path ''f'' 0) = Some (resource_range ?res 0 2)"
    "files ?w1 (part_path ''f'' 1) = Some (resource_range ?res 3 5)"
    "files ?w1 (part_path ''f'' 2) = Some (resource_range ?res 6 9)"
    by (simp_all add: worker_eval)
  have sink1: "files ?w1 ''f.part1'' = Some ''345''"
    using sinks(2) by (simp add: part_names resource_range_def)
  have h4: "snd (download_chunk three_threads good_server ''f'' t fresh_world) \<noteq> None
         \<and> files (fst (run_workers three_threads good_server ''f''
                    (rev (download_tasks (file_size ten_bytes) (min (max_threads three_threads) 16)
                              (file_size ten_bytes div min (max_threads three_threads) 16)))
                    (fresh_world, [])))
              (part_path ''f'' (snd (snd t)))
             = Some (resource_range ?res (fst t) (fst (snd t)))"
    if "t \<in> set (download_tasks (file_size ten_bytes) (min (max_threads three_threads) 16)
                        (file_size ten_bytes div min (max_threads three_threads) 16))" for t
  proof -
    from that have "t = (0, 2, 0) \<or> t = (3, 5, 1) \<or> t = (6, 9, 2)"
      unfolding three_tasks by simp
    then show ?thesis
      unfolding three_tasks using results sinks by auto
  qed
  note t = reassembly_restores_resource[OF h1 h2 h3 h4, where polls = 2]
  obtain w' r where run: "threaded_download_advanced three_threads good_server rev 2 ''f''
                            ten_bytes fresh_world = (w', r)"
    by (cases "threaded_download_advanced three_threads good_server rev 2 ''f'' ten_bytes
                 fresh_world")
  from t have r: "r = Inr True" and d: "files w' ''f'' = Some ?res"
    and p: "\<forall>i \<in> {0..3 - 1}. files w' (part_path ''f'' i) = None"
    and s: "\<forall>chunks clock ws. files ws ''f'' = None \<and> good_server None = Stream chunks True
                \<and> concat chunks = ?res \<longrightarrow>
                files (fst (simple_download_advanced three_threads good_server clock ''f''
                             ten_bytes ws)) ''f'' = files w' ''f''"
    unfolding run prod.case three_threads_min by blast+
  from p have "files w' (part_path ''f'' 0) = None" "files w' (part_path ''f'' 1) = None"
    "files w' (part_path ''f'' 2) = None"
    by simp_all
  then have parts: "files w' ''f.part0'' = None" "files w' ''f.part1'' = None"
    "files w' ''f.part2'' = None"
    unfolding part_names by simp_all
  have "files fresh_world ''f'' = None \<and> good_server None = Stream [?res] True
          \<and> concat [?res] = ?res"
    by (simp add: fresh_world_def good_server_def table_server_def)
  with s have single: "files (fst (simple_download_advanced three_threads good_server (\<lambda>k. 0) ''f''
                             ten_bytes fresh_world)) ''f'' = files w' ''f''"
    by blast
  from h1 h3 three_tasks sink1 r d parts single show ?thesis unfolding run by simp
qed

text \<open>
  Claim C6, as amended. With at least one thread and any completion order, the
  multi-segment download raises no exception: it returns \<^verbatim>\<open>True\<close> exactly when every
  worker returned a sink, and otherwise returns \<^verbatim>\<open>False\<close> with the destination file as
  it was. The reassembly loop itself skips a sink that does not exist: the destination
  receives the concatenation, by ascending index, of the sinks that exist.
\<close>

theorem reassembly_guard_and_skip:
  assumes "1 \<le> max_threads cfg" and "\<And>ts. mset (sched ts) = mset ts"
  shows "snd (threaded_download_advanced cfg get sched polls filepath finfo w)
           = Inr (\<forall>t \<in> set (download_tasks (file_size finfo) (min (max_threads cfg) 16)
                               (file_size finfo div min (max_threads cfg) 16)).
                    snd (download_chunk cfg get filepath t w) \<noteq> None)
         \<and> (snd (threaded_download_advanced cfg get sched polls filepath finfo w) = Inr False \<longrightarrow>
              files (fst (threaded_download_advanced cfg get sched polls filepath finfo w)) filepath
                = files w filepath)
         \<and> files (combine_chunks filepath n w1) filepath
             = Some (concat (map (\<lambda>i. case files w1 (part_path filepath i) of
                                          None \<Rightarrow> [] | Some d \<Rightarrow> d) [0..n - 1]))"
proof -
  define k where "k = min (max_threads cfg) 16"
  define tasks where "tasks = download_tasks (file_size finfo) k (file_size finfo div k)"
  define w2 where "w2 = poll_loop polls (fst (run_workers cfg get filepath (sched tasks) (w, [])))"
  have eq: "(\<forall>t \<in> set tasks. snd (download_chunk cfg get filepath t w) \<noteq> None)
              = (\<forall>t \<in> set tasks. segment_done get t)"
    by (simp add: download_chunk_result)
  have run: "threaded_download_advanced cfg get sched polls filepath finfo w =
               (if \<forall>t \<in> set tasks. segment_done get t
                then (combine_chunks filepath k w2, Inr True)
                else (cleanup_chunks filepath k w2, Inr False))"
    using threaded_download_run[OF assms, of get polls filepath finfo w]
    unfolding w2_def tasks_def k_def by simp
  have dest2: "files w2 filepath = files w filepath"
    unfolding w2_def files_poll_loop
    by (rule run_workers_files_other) (simp add: part_path_not_filepath[symmetric])
  have dest: "files (cleanup_chunks filepath k w2) filepath = files w filepath"
    using dest2 by (simp add: cleanup_chunks_files filepath_not_a_part)
  have skip: "files (combine_chunks filepath n w1) filepath
             = Some (concat (map (\<lambda>i. case files w1 (part_path filepath i) of
                                          None \<Rightarrow> [] | Some d \<Rightarrow> d) [0..n - 1]))"
    by (simp add: combine_chunks_files)
  have r: "snd (threaded_download_advanced cfg get sched polls filepath finfo w)
             = Inr (\<forall>t \<in> set tasks. snd (download_chunk cfg get filepath t w) \<noteq> None)"
    unfolding eq run by simp
  have d: "files (fst (threaded_download_advanced cfg get sched polls filepath finfo w)) filepath
             = files w filepath"
    if "snd (threaded_download_advanced cfg get sched polls filepath finfo w) = Inr False"
  proof (cases "\<forall>t \<in> set tasks. segment_done get t")
    case True
    then have "threaded_download_advanced cfg get sched polls filepath finfo w
                 = (combine_chunks filepath k w2, Inr True)"
      unfolding run by (rule if_P)
    with that show ?thesis by simp
  next
    case False
    then have "threaded_download_advanced cfg get sched polls filepath finfo w
                 = (cleanup_chunks filepath k w2, Inr False)"
      unfolding run by (rule if_not_P)
    with dest show ?thesis by simp
  qed
  show ?thesis
    unfolding k_def[symmetric] tasks_def[symmetric]
  proof (intro conjI impI)
    show "snd (threaded_download_advanced cfg get sched polls filepath finfo w)
             = Inr (\<forall>t \<in> set tasks. snd (download_chunk cfg get filepath t w) \<noteq> None)"
      by (rule r)
    show "files (fst (threaded_download_advanced cfg get sched polls filepath finfo w)) filepath
             = files w filepath"
      if "snd (threaded_download_advanced cfg get sched polls filepath finfo w) = Inr False"
      using that by (rule d)
    show "files (combine_chunks filepath n w1) filepath
             = Some (concat (map (\<lambda>i. case files w1 (part_path filepath i) of
                                          None \<Rightarrow> [] | Some d \<Rightarrow> d) [0..n - 1]))"
      by (rule skip)
  qed
qed

theorem reassembly_guard_and_skip_witness:
  "1 \<le> max_threads three_threads
   \<and> snd (threaded_download_advanced three_threads good_server rev 2 ''f'' ten_bytes fresh_world)
       = Inr True
   \<and> snd (threaded_download_advanced three_threads failing_server rev 2 ''f'' ten_bytes
             fresh_world) = Inr False
   \<and> files (fst (threaded_download_advanced three_threads failing_server rev 2 ''f'' ten_bytes
                    fresh_world)) ''f'' = None
   \<and> files (world_of [(''f.part0'', ''ab''), (''f.part2'', ''ef'')]) ''f.part1'' = None
   \<and> files (combine_chunks ''f'' 3 (world_of [(''f.part0'', ''ab''), (''f.part2'', ''ef'')])) ''f''
       = Some ''abef''"
proof -
  have h1: "1 \<le> max_threads three_threads"
    by (simp add: three_threads_def DEFAULT_CONFIG_def)
  have h2: "mset (rev ts) = mset ts" for ts :: "task list" by simp
  let ?w = "world_of [(''f.part0'', ''ab''), (''f.part2'', ''ef'')]"
  note good = reassembly_guard_and_skip[OF h1 h2, where get = good_server and filepath = "''f''"
      and finfo = ten_bytes and w = fresh_world and n = 3 and ?w1.0 = ?w and polls = 2]
  note bad = reassembly_guard_and_skip[OF h1 h2, where get = failing_server
      and filepath = "''f''" and finfo = ten_bytes and w = fresh_world and n = 3 and ?w1.0 = ?w
      and polls = 2]
  have all_good: "\<forall>t \<in> set [(0, 2, 0), (3, 5, 1), (6, 9, 2)].
      snd (download_chunk three_threads good_server ''f'' t fresh_world) \<noteq> None"
    by (simp add: worker_eval)
  have some_bad: "\<not> (\<forall>t \<in> set [(0, 2, 0), (3, 5, 1), (6, 9, 2)].
      snd (download_chunk three_threads failing_server ''f'' t fresh_world) \<noteq> None)"
    by (simp add: worker_eval)
  from good[THEN conjunct1] all_good
  have r1: "snd (threaded_download_advanced three_threads good_server rev 2 ''f'' ten_bytes
                   fresh_world) = Inr True"
    unfolding three_tasks by simp
  from bad[THEN conjunct1] some_bad
  have r2: "snd (threaded_download_advanced three_threads failing_server rev 2 ''f'' ten_bytes
                   fresh_world) = Inr False"
    unfolding three_tasks by simp
  from bad[THEN conjunct2, THEN conjunct1] r2
  have r3: "files (fst (threaded_download_advanced three_threads failing_server rev 2 ''f'' ten_bytes
                    fresh_world)) ''f'' = None"
    by (simp add: fresh_world_def)
  have sinks: "files ?w (part_path ''f'' 0) = Some ''ab''" "files ?w (part_path ''f'' 1) = None"
    "files ?w (part_path ''f'' 2) = Some ''ef''"
    by (simp_all add: part_names world_of_def)
  from bad[THEN conjunct2, THEN conjunct2]
  have r4: "files (combine_chunks ''f'' 3 ?w) ''f'' = Some ''abef''"
    using sinks by (simp add: upto.simps)
  have r5: "files ?w ''f.part1'' = None" by (simp add: world_of_def)
  from h1 r1 r2 r3 r4 r5 show ?thesis by simp
qed

text \<open>
  Claim C6 as stated fails. With a failed segment the function returns \<^verbatim>\<open>False\<close>
  and raises nothing; and the reassembly run on three segments whose second sink is
  missing writes the first and the third sink to the destination and says nothing.
\<close>

theorem reassembly_guard_counterexample:
  "snd (download_chunk three_threads failing_server ''f'' (3, 5, 1) fresh_world) = None
   \<and> snd (threaded_download_advanced three_threads failing_server id 2 ''f'' ten_bytes fresh_world)
       = Inr False
   \<and> files (world_of [(''f.part0'', ''ab''), (''f.part2'', ''ef'')]) ''f.part1'' = None
   \<and> files (combine_chunks ''f'' 3 (world_of [(''f.part0'', ''ab''), (''f.part2'', ''ef'')])) ''f''
       = Some ''abef''"
proof -
  have a: "snd (download_chunk three_threads failing_server ''f'' (3, 5, 1) fresh_world) = None"
    by (simp add: worker_eval)
  have b: "snd (threaded_download_advanced three_threads failing_server id 2 ''f'' ten_bytes
                  fresh_world) = Inr False"
    by (simp add: threaded_eval upto.simps)
  have d: "files (world_of [(''f.part0'', ''ab''), (''f.part2'', ''ef'')]) ''f.part1'' = None"
    by (simp add: world_of_def)
  have e: "files (combine_chunks ''f'' 3 (world_of [(''f.part0'', ''ab''), (''f.part2'', ''ef'')]))
             ''f'' = Some ''abef''"
    by (simp add: combine_chunks_def part_path_def str_eval exists_file_def open_file_def
        log_io_def write_file_def remove_file_def world_of_def Let_def upto.simps)
  from a b d e show ?thesis by simp
qed

text \<open>
  Claim C5 does not hold of the code. A segment worker never calls \<^verbatim>\<open>time.sleep\<close> and
  does the same for every value of the rate limit: it does not read the setting. The only
  sleeps of the multi-segment download are those of the main thread, 0.1 seconds for each
  pass of its progress loop, whatever the rate limit. With a limit of 1 KB/s and a
  four-byte resource that arrives at once, the multi-segment download sleeps twice 0.1
  seconds for two passes of the progress loop, while the single-stream download of the
  same resource sleeps the deficit of 4/1024 seconds.
\<close>

theorem segment_worker_never_sleeps:
  "sleeps_of (io_log (fst (download_chunk cfg get filepath t w))) = sleeps_of (io_log w)
   \<and> download_chunk (cfg\<lparr>download_rate_limit_kbps := r\<rparr>) get filepath t w
       = download_chunk cfg get filepath t w
   \<and> sleeps_of (io_log (fst (run_workers cfg get filepath ts (w, results))))
       = sleeps_of (io_log w)
   \<and> sleeps_of (io_log (fst (threaded_download_advanced cfg get sched polls filepath finfo w)))
       = sleeps_of (io_log w) @ (if 1 \<le> max_threads cfg then replicate polls (1 / 10) else [])
   \<and> threaded_download_advanced (cfg\<lparr>download_rate_limit_kbps := r\<rparr>) get sched polls
        filepath finfo w
       = threaded_download_advanced cfg get sched polls filepath finfo w
   \<and> sleeps_of (io_log (fst (threaded_download_advanced
        (DEFAULT_CONFIG\<lparr>max_threads := 1, download_rate_limit_kbps := 1\<rparr>)
        (table_server [(None, Stream [''abcd''] True), (Some ''bytes=0-3'', Stream [''abcd''] True)])
        id 2 ''f'' \<lparr>file_size = 4, supports_resume = True\<rparr> fresh_world)))
       = [1 / 10, 1 / 10]
   \<and> sleeps_of (io_log (fst (simple_download_advanced
        (DEFAULT_CONFIG\<lparr>max_threads := 1, download_rate_limit_kbps := 1\<rparr>)
        (table_server [(None, Stream [''abcd''] True), (Some ''bytes=0-3'', Stream [''abcd''] True)])
        (\<lambda>k. 0) ''f'' \<lparr>file_size = 4, supports_resume = True\<rparr> fresh_world)))
       = [1 / 256]"
proof (intro conjI)
  show "sleeps_of (io_log (fst (download_chunk cfg get filepath t w))) = sleeps_of (io_log w)"
    by (rule download_chunk_sleeps)
  show "download_chunk (cfg\<lparr>download_rate_limit_kbps := r\<rparr>) get filepath t w
       = download_chunk cfg get filepath t w"
    by (simp add: download_chunk_def)
  show "sleeps_of (io_log (fst (run_workers cfg get filepath ts (w, results))))
       = sleeps_of (io_log w)"
    by (rule run_workers_sleeps)
  have same: "run_workers (cfg\<lparr>download_rate_limit_kbps := r\<rparr>) get filepath us st
      = run_workers cfg get filepath us st" for us st
    by (induction us arbitrary: st) (auto simp add: download_chunk_def)
  show "threaded_download_advanced (cfg\<lparr>download_rate_limit_kbps := r\<rparr>) get sched polls
        filepath finfo w
       = threaded_download_advanced cfg get sched polls filepath finfo w"
    unfolding threaded_download_advanced_def same by simp
  define n where "n = min (max_threads cfg) 16"
  define st where "st = run_workers cfg get filepath
    (sched (download_tasks (file_size finfo) n (file_size finfo div n))) (w, [])"
  have pool: "sleeps_of (io_log (fst st)) = sleeps_of (io_log w)"
    unfolding st_def by (rule run_workers_sleeps)
  have n1: "(1 \<le> max_threads cfg) = (\<not> n \<le> 0)" unfolding n_def by auto
  show "sleeps_of (io_log (fst (threaded_download_advanced cfg get sched polls filepath finfo w)))
       = sleeps_of (io_log w) @ (if 1 \<le> max_threads cfg then replicate polls (1 / 10) else [])"
    unfolding threaded_download_advanced_def Let_def n1
    unfolding n_def[symmetric]
    using pool
    by (simp add: py_floordiv_def case_prod_beta combine_chunks_sleeps sleeps_of_poll_loop
        st_def)
  show "sleeps_of (io_log (fst (threaded_download_advanced
        (DEFAULT_CONFIG\<lparr>max_threads := 1, download_rate_limit_kbps := 1\<rparr>)
        (table_server [(None, Stream [''abcd''] True), (Some ''bytes=0-3'', Stream [''abcd''] True)])
        id 2 ''f'' \<lparr>file_size = 4, supports_resume = True\<rparr> fresh_world)))
       = [1 / 10, 1 / 10]"
    by (simp add: threaded_download_advanced_def py_floordiv_def download_tasks_def Let_def
        poll_loop.simps numeral_2_eq_2
        download_chunk_def range_header_def part_path_def collect_temp_files_def
        combine_chunks_def cleanup_chunks_def remove_file_def simple_eval)
  show "sleeps_of (io_log (fst (simple_download_advanced
        (DEFAULT_CONFIG\<lparr>max_threads := 1, download_rate_limit_kbps := 1\<rparr>)
        (table_server [(None, Stream [''abcd''] True), (Some ''bytes=0-3'', Stream [''abcd''] True)])
        (\<lambda>k. 0) ''f'' \<lparr>file_size = 4, supports_resume = True\<rparr> fresh_world)))
       = [1 / 256]"
    by (simp add: simple_eval)
qed

text \<open>
  Claim C7 does not hold of the code. With \<^verbatim>\<open>max_threads = 0\<close> the worker count is
  \<open>min 0 16 = 0\<close>, the division raises \<^verbatim>\<open>ZeroDivisionError\<close> and the download fails
  with nothing done; with \<^verbatim>\<open>max_threads = -1\<close> the worker count is \<open>-1\<close> and the
  thread pool refuses it with \<^verbatim>\<open>ValueError\<close>.
\<close>

theorem zero_max_threads_raises:
  "min (max_threads (cfg\<lparr>max_threads := 0\<rparr>)) 16 = 0
   \<and> py_floordiv (file_size finfo) (min (max_threads (cfg\<lparr>max_threads := 0\<rparr>)) 16)
       = Inl ZeroDivisionError
   \<and> threaded_download_advanced (cfg\<lparr>max_threads := 0\<rparr>) get sched polls filepath finfo w
       = (w, Inl ZeroDivisionError)
   \<and> threaded_download_advanced (cfg\<lparr>max_threads := - 1\<rparr>) get sched polls filepath finfo w
       = (w, Inl ValueError)
   \<and> professional_download_transfer (cfg\<lparr>max_threads := 0\<rparr>) get sched polls clock filepath
        \<lparr>file_size = 20 * 1024 * 1024, supports_resume = True\<rparr> w = (w, False)"
  by (simp add: threaded_download_advanced_def professional_download_transfer_def
      py_floordiv_def Let_def)

end
